theory Spec2Isabelle
  imports Main
begin

section \<open>Descriptors: the input of \<open>ProcessDescriptors\<close>\<close>

text \<open>
  The request carries the list of files to generate and the decoded file descriptors.
  Only the descriptor fields that \<^verbatim>\<open>ast.go\<close> reads are kept. A getter of the generated
  descriptor code returns the zero value for an unset field, so an unset string is
  \<open>''''\<close> and an unset list is \<open>[]\<close>; \<^verbatim>\<open>OneofIndex\<close> is read as a pointer and is an
  \<open>option\<close>.
\<close>

datatype ProtoType =
    DoubleT | FloatT | Int64T | UInt64T | Int32T | Fixed64T | Fixed32T | BoolT | StringT
  | GroupT | MessageT | BytesT | UInt32T | EnumT | SFixed32 | SFixed64 | SInt32 | SInt64

datatype ProtoLabel = Optional | Required | Repeated

record EnumValueDescriptorProto =
  evd_name :: string
  evd_number :: int

record EnumDescriptorProto =
  ed_name :: string
  ed_value :: "EnumValueDescriptorProto list"

record FieldDescriptorProto =
  fdp_name :: string
  fdp_label :: ProtoLabel
  fdp_type :: ProtoType
  fdp_type_name :: string
  fdp_oneof_index :: "int option"

record OneofDescriptorProto =
  od_name :: string

datatype DescriptorProto = DescriptorProto
  (dp_name: string)
  (dp_field: "FieldDescriptorProto list")
  (dp_nested_type: "DescriptorProto list")
  (dp_enum_type: "EnumDescriptorProto list")
  (dp_oneof_decl: "OneofDescriptorProto list")
  (dp_map_entry: bool)

record MethodDescriptorProto =
  md_name :: string
  md_input_type :: string
  md_output_type :: string

record ServiceDescriptorProto =
  sd_name :: string
  sd_method :: "MethodDescriptorProto list"

record Location =
  loc_path :: "int list"
  loc_leading_comments :: string

record FileDescriptorProto =
  fd_name :: string
  fd_package :: string
  fd_message_type :: "DescriptorProto list"
  fd_enum_type :: "EnumDescriptorProto list"
  fd_service :: "ServiceDescriptorProto list"
  fd_source_code_info :: "Location list"

record CodeGeneratorRequest =
  file_to_generate :: "string list"
  proto_file :: "FileDescriptorProto list"

section \<open>The entity graph\<close>

text \<open>
  Every entity of the Go code is a pointer to a struct, and the claims speak of the
  identity of these objects. The model keeps the structs in a store, a list of
  objects; a pointer is an index into it (\<open>ref\<close>), and two pointers are the same
  object exactly when the indices are equal. A \<^verbatim>\<open>nil\<close> interface value is \<open>None\<close>.
\<close>

type_synonym ref = nat

text \<open>
  The element of a repeated or map type (\<^verbatim>\<open>scalarE\<close>, \<^verbatim>\<open>enumE\<close>, \<^verbatim>\<open>embedE\<close>) and the
  type of a field (\<^verbatim>\<open>scalarT\<close>, \<^verbatim>\<open>enumT\<close>, \<^verbatim>\<open>embedT\<close>, \<^verbatim>\<open>repT\<close>, \<^verbatim>\<open>mapT\<close>). The first
  argument of a field type is its \<^verbatim>\<open>fld\<close>. An element is owned by the field type that
  holds it, which stands for its back pointer \<^verbatim>\<open>typ\<close>.
\<close>

datatype FieldTypeElem =
    scalarE (ptype: ProtoType)
  | enumE (ptype: ProtoType) ref
  | embedE (ptype: ProtoType) ref

datatype FieldType =
    scalarT (fld: ref)
  | enumT (fld: ref) ref
  | embedT (fld: ref) ref
  | repT (fld: ref) FieldTypeElem
  | mapT (fld: ref) FieldTypeElem FieldTypeElem

record pkg =
  pkg_fd :: FileDescriptorProto
  pkg_files :: "ref list"

record "file" =
  file_pkg :: ref
  file_desc :: FileDescriptorProto
  file_buildTarget :: bool
  file_enums :: "ref list"
  file_msgs :: "ref list"
  file_srvs :: "ref list"
  file_syntaxInfo :: "Location option"
  file_packageInfo :: "Location option"

record enum =
  enum_desc :: EnumDescriptorProto
  enum_parent :: ref
  enum_vals :: "ref list"
  enum_info :: "Location option"

record enumVal =
  ev_desc :: EnumValueDescriptorProto
  ev_enum :: ref
  ev_info :: "Location option"

record service =
  srv_desc :: ServiceDescriptorProto
  srv_file :: ref
  srv_methods :: "ref list"
  srv_info :: "Location option"

record method_obj =
  mth_desc :: MethodDescriptorProto
  mth_service :: ref
  mth_in :: "ref option"
  mth_out :: "ref option"
  mth_info :: "Location option"

record msg =
  msg_desc :: DescriptorProto
  msg_parent :: ref
  msg_enums :: "ref list"
  msg_msgs :: "ref list"
  msg_preservedMsgs :: "ref option list"
  msg_maps :: "ref list"
  msg_oneofs :: "ref list"
  msg_fields :: "ref list"
  msg_info :: "Location option"

record field =
  field_desc :: FieldDescriptorProto
  field_msg :: ref
  field_typ :: "FieldType option"
  field_info :: "Location option"

record oneof =
  oneof_desc :: OneofDescriptorProto
  oneof_msg :: ref
  oneof_flds :: "ref list"
  oneof_info :: "Location option"

datatype obj =
    Pkg pkg
  | File "file"
  | Enum enum
  | EnumVal enumVal
  | Service service
  | Method method_obj
  | Msg msg
  | Field field
  | OneOf oneof

text \<open>
  The \<^verbatim>\<open>graph\<close> struct: \<^verbatim>\<open>targets\<close> maps a requested name to a File or to \<^verbatim>\<open>nil\<close>
  (\<open>Some None\<close>); a name that is not a key is \<open>None\<close>. The state of a construction is
  the graph together with the store its pointers point into.
\<close>

record graph =
  targets :: "string \<rightharpoonup> ref option"
  packages :: "string \<rightharpoonup> ref"
  entities :: "string \<rightharpoonup> ref"

record state = graph +
  objs :: "obj list"

definition Targets :: "state \<Rightarrow> (string \<rightharpoonup> ref option)" where
  "Targets g = targets g"

definition Packages :: "state \<Rightarrow> (string \<rightharpoonup> ref)" where
  "Packages g = packages g"

definition Lookup :: "state \<Rightarrow> string \<Rightarrow> ref option \<times> bool" where
  "Lookup g name = (case entities g name of Some e \<Rightarrow> (Some e, True) | None \<Rightarrow> (None, False))"

section \<open>Failure and state passing\<close>

text \<open>
  Modelled from the spec: the \<^verbatim>\<open>Debugger\<close> handed to \<^verbatim>\<open>ProcessDescriptors\<close> is an
  external collaborator whose code is not part of \<^verbatim>\<open>ast.go\<close>. The spec describes it as
  the single failure channel, "capable of recording a fatal message and halting": a
  call of \<^verbatim>\<open>Fail\<close> or \<^verbatim>\<open>Failf\<close> ends the construction with the message (\<open>Fail\<close>, and
  \<open>Failf\<close> with the format and its argument). The statement that follows such a call in
  the source (\<^verbatim>\<open>return nil\<close>) is then never reached.

  A panic of the Go runtime (a failed type assertion, an index out of range, a method
  called on a \<^verbatim>\<open>nil\<close> interface) ends the construction too, as \<open>Panic\<close>.
\<close>

datatype panic = TypeAssertion | IndexOutOfRange | NilDereference | NotAnElement

datatype error =
    Fail string
  | Failf string string
  | Panic panic

text \<open>
  A function of the Go code that changes the graph or the store takes the state and
  returns either an error or its result with the new state.
\<close>

type_synonym 'a M = "state \<Rightarrow> error + ('a \<times> state)"

definition return :: "'a \<Rightarrow> 'a M" where
  "return x = (\<lambda>s. Inr (x, s))"

definition bind :: "'a M \<Rightarrow> ('a \<Rightarrow> 'b M) \<Rightarrow> 'b M" where
  "bind m f = (\<lambda>s. case m s of Inl e \<Rightarrow> Inl e | Inr (x, s') \<Rightarrow> f x s')"

definition throw :: "error \<Rightarrow> 'a M" where
  "throw e = (\<lambda>s. Inl e)"

definition gets :: "(state \<Rightarrow> 'a) \<Rightarrow> 'a M" where
  "gets f = (\<lambda>s. Inr (f s, s))"

definition lift :: "(state \<Rightarrow> error + 'a) \<Rightarrow> 'a M" where
  "lift f = (\<lambda>s. case f s of Inl e \<Rightarrow> Inl e | Inr x \<Rightarrow> Inr (x, s))"

definition modify :: "(state \<Rightarrow> state) \<Rightarrow> unit M" where
  "modify f = (\<lambda>s. Inr ((), f s))"

text \<open>\<^verbatim>\<open>for _, x := range xs { body }\<close>: the body runs on each element in turn and the
  first failure ends the loop.\<close>

primrec forRange :: "'a list \<Rightarrow> ('a \<Rightarrow> unit M) \<Rightarrow> unit M" where
  "forRange [] body = return ()"
| "forRange (x # xs) body = bind (body x) (\<lambda>_. forRange xs body)"

subsection \<open>The store\<close>

text \<open>\<open>cell h r\<close> reads the object a pointer points to; no object lives beyond the end
  of the store.\<close>

definition cell :: "obj list \<Rightarrow> ref \<Rightarrow> obj option" where
  "cell h r = (if r < length h then Some (h ! r) else None)"

text \<open>\<^verbatim>\<open>&T{...}\<close>: a new object at the next free address.\<close>

definition alloc :: "obj \<Rightarrow> ref M" where
  "alloc ob = (\<lambda>s. Inr (length (objs s), s\<lparr>objs := objs s @ [ob]\<rparr>))"

text \<open>An assignment through a pointer: the object at \<open>r\<close> is replaced by \<open>f\<close> of it.\<close>

definition update :: "ref \<Rightarrow> (obj \<Rightarrow> obj) \<Rightarrow> unit M" where
  "update r f = modify (\<lambda>s. s\<lparr>objs := (objs s)[r := f (objs s ! r)]\<rparr>)"

section \<open>Methods of the entities\<close>

text \<open>
  Modelled from the spec: the methods of the entity structs that \<^verbatim>\<open>ast.go\<close> calls
  (\<^verbatim>\<open>addFile\<close>, \<^verbatim>\<open>addEnum\<close>, \<^verbatim>\<open>addMessage\<close>, \<^verbatim>\<open>addMapEntry\<close>, \<^verbatim>\<open>addService\<close>,
  \<^verbatim>\<open>addValue\<close>, \<^verbatim>\<open>addMethod\<close>, \<^verbatim>\<open>addOneOf\<close>, \<^verbatim>\<open>addField\<close>, \<^verbatim>\<open>addType\<close>,
  \<^verbatim>\<open>addSourceCodeInfo\<close>, \<^verbatim>\<open>addPackageSourceCodeInfo\<close>) are declared in other files of
  the package, which are missing here. By the data model of the spec each owner keeps
  the list of its children in the order they were added, a Field has exactly one
  FieldType, and every entity has one attachable source-location record. A method
  called through a pointer of another struct type does not occur in the Go code; the
  model leaves the object as it is.
\<close>

definition pkg_addFile :: "ref \<Rightarrow> ref \<Rightarrow> unit M" where
  "pkg_addFile p f =
     update p (\<lambda>ob. case ob of Pkg x \<Rightarrow> Pkg (x\<lparr>pkg_files := pkg_files x @ [f]\<rparr>) | _ \<Rightarrow> ob)"

definition file_addEnum :: "ref \<Rightarrow> ref \<Rightarrow> unit M" where
  "file_addEnum fl e =
     update fl (\<lambda>ob. case ob of File x \<Rightarrow> File (x\<lparr>file_enums := file_enums x @ [e]\<rparr>) | _ \<Rightarrow> ob)"

definition file_addMessage :: "ref \<Rightarrow> ref \<Rightarrow> unit M" where
  "file_addMessage fl m =
     update fl (\<lambda>ob. case ob of File x \<Rightarrow> File (x\<lparr>file_msgs := file_msgs x @ [m]\<rparr>) | _ \<Rightarrow> ob)"

definition file_addService :: "ref \<Rightarrow> ref \<Rightarrow> unit M" where
  "file_addService fl sv =
     update fl (\<lambda>ob. case ob of File x \<Rightarrow> File (x\<lparr>file_srvs := file_srvs x @ [sv]\<rparr>) | _ \<Rightarrow> ob)"

definition addValue :: "ref \<Rightarrow> ref \<Rightarrow> unit M" where
  "addValue e v =
     update e (\<lambda>ob. case ob of Enum x \<Rightarrow> Enum (x\<lparr>enum_vals := enum_vals x @ [v]\<rparr>) | _ \<Rightarrow> ob)"

definition addMethod :: "ref \<Rightarrow> ref \<Rightarrow> unit M" where
  "addMethod sv m =
     update sv (\<lambda>ob. case ob of Service x \<Rightarrow> Service (x\<lparr>srv_methods := srv_methods x @ [m]\<rparr>)
                      | _ \<Rightarrow> ob)"

definition msg_addEnum :: "ref \<Rightarrow> ref \<Rightarrow> unit M" where
  "msg_addEnum m e =
     update m (\<lambda>ob. case ob of Msg x \<Rightarrow> Msg (x\<lparr>msg_enums := msg_enums x @ [e]\<rparr>) | _ \<Rightarrow> ob)"

definition msg_addMessage :: "ref \<Rightarrow> ref \<Rightarrow> unit M" where
  "msg_addMessage m nm =
     update m (\<lambda>ob. case ob of Msg x \<Rightarrow> Msg (x\<lparr>msg_msgs := msg_msgs x @ [nm]\<rparr>) | _ \<Rightarrow> ob)"

definition addMapEntry :: "ref \<Rightarrow> ref \<Rightarrow> unit M" where
  "addMapEntry m nm =
     update m (\<lambda>ob. case ob of Msg x \<Rightarrow> Msg (x\<lparr>msg_maps := msg_maps x @ [nm]\<rparr>) | _ \<Rightarrow> ob)"

definition addOneOf :: "ref \<Rightarrow> ref \<Rightarrow> unit M" where
  "addOneOf m o1 =
     update m (\<lambda>ob. case ob of Msg x \<Rightarrow> Msg (x\<lparr>msg_oneofs := msg_oneofs x @ [o1]\<rparr>) | _ \<Rightarrow> ob)"

definition msg_addField :: "ref \<Rightarrow> ref \<Rightarrow> unit M" where
  "msg_addField m f =
     update m (\<lambda>ob. case ob of Msg x \<Rightarrow> Msg (x\<lparr>msg_fields := msg_fields x @ [f]\<rparr>) | _ \<Rightarrow> ob)"

definition oneof_addField :: "ref \<Rightarrow> ref \<Rightarrow> unit M" where
  "oneof_addField o1 f =
     update o1 (\<lambda>ob. case ob of OneOf x \<Rightarrow> OneOf (x\<lparr>oneof_flds := oneof_flds x @ [f]\<rparr>)
                      | _ \<Rightarrow> ob)"

definition addType :: "ref \<Rightarrow> FieldType \<Rightarrow> unit M" where
  "addType f t =
     update f (\<lambda>ob. case ob of Field x \<Rightarrow> Field (x\<lparr>field_typ := Some t\<rparr>) | _ \<Rightarrow> ob)"

definition addSourceCodeInfo :: "ref \<Rightarrow> Location \<Rightarrow> unit M" where
  "addSourceCodeInfo e info =
     update e (\<lambda>ob. case ob of
         Pkg x \<Rightarrow> ob
       | File x \<Rightarrow> File (x\<lparr>file_syntaxInfo := Some info\<rparr>)
       | Enum x \<Rightarrow> Enum (x\<lparr>enum_info := Some info\<rparr>)
       | EnumVal x \<Rightarrow> EnumVal (x\<lparr>ev_info := Some info\<rparr>)
       | Service x \<Rightarrow> Service (x\<lparr>srv_info := Some info\<rparr>)
       | Method x \<Rightarrow> Method (x\<lparr>mth_info := Some info\<rparr>)
       | Msg x \<Rightarrow> Msg (x\<lparr>msg_info := Some info\<rparr>)
       | Field x \<Rightarrow> Field (x\<lparr>field_info := Some info\<rparr>)
       | OneOf x \<Rightarrow> OneOf (x\<lparr>oneof_info := Some info\<rparr>))"

definition addPackageSourceCodeInfo :: "ref \<Rightarrow> Location \<Rightarrow> unit M" where
  "addPackageSourceCodeInfo fl info =
     update fl (\<lambda>ob. case ob of File x \<Rightarrow> File (x\<lparr>file_packageInfo := Some info\<rparr>) | _ \<Rightarrow> ob)"

text \<open>
  Modelled from the spec: the readers \<^verbatim>\<open>Fields\<close>, \<^verbatim>\<open>MapEntries\<close>, \<^verbatim>\<open>Type\<close>,
  \<^verbatim>\<open>Descriptor\<close>, \<^verbatim>\<open>ProtoType\<close>, \<^verbatim>\<open>ProtoLabel\<close> and \<^verbatim>\<open>IsMapEntry\<close>, declared in the
  missing files. They return what the graph holds; "a message is a map-entry if the
  descriptor explicitly marks it so". The getters of a descriptor return the zero value
  through a \<^verbatim>\<open>nil\<close> pointer, which is what a pointer to no field reads as.
\<close>

definition Fields :: "obj list \<Rightarrow> ref \<Rightarrow> ref list" where
  "Fields h m = (case cell h m of Some (Msg x) \<Rightarrow> msg_fields x | _ \<Rightarrow> [])"

definition MapEntries :: "obj list \<Rightarrow> ref \<Rightarrow> ref list" where
  "MapEntries h m = (case cell h m of Some (Msg x) \<Rightarrow> msg_maps x | _ \<Rightarrow> [])"

definition Type :: "obj list \<Rightarrow> ref \<Rightarrow> FieldType option" where
  "Type h f = (case cell h f of Some (Field x) \<Rightarrow> field_typ x | _ \<Rightarrow> None)"

definition Descriptor :: "obj list \<Rightarrow> ref \<Rightarrow> FieldDescriptorProto" where
  "Descriptor h f =
     (case cell h f of
        Some (Field x) \<Rightarrow> field_desc x
      | _ \<Rightarrow> \<lparr>fdp_name = [], fdp_label = Optional, fdp_type = DoubleT, fdp_type_name = [],
               fdp_oneof_index = None\<rparr>)"

definition ProtoType :: "obj list \<Rightarrow> FieldType \<Rightarrow> ProtoType" where
  "ProtoType h t = fdp_type (Descriptor h (fld t))"

definition ProtoLabel :: "obj list \<Rightarrow> FieldType \<Rightarrow> ProtoLabel" where
  "ProtoLabel h t = fdp_label (Descriptor h (fld t))"

definition IsMapEntry :: "obj list \<Rightarrow> ref \<Rightarrow> bool" where
  "IsMapEntry h m = (case cell h m of Some (Msg x) \<Rightarrow> dp_map_entry (msg_desc x) | _ \<Rightarrow> False)"

text \<open>
  Modelled from the spec: \<^verbatim>\<open>toElem\<close>, declared in the missing files, turns the type of
  a map entry's key or value field into the element of the map: "the classifier is
  applied once to decide shape and once more, with shape stripped, to decide the
  element kind". A scalar, enum or embedded type gives the element of the same kind
  with the same enum or message; a repeated or map type has no element form (a map
  key or value is never repeated) and the call panics.
\<close>

definition toElem :: "obj list \<Rightarrow> FieldType \<Rightarrow> error + FieldTypeElem" where
  "toElem h t =
     (case t of
        scalarT f \<Rightarrow> Inr (scalarE (ProtoType h t))
      | enumT f e \<Rightarrow> Inr (enumE (ProtoType h t) e)
      | embedT f m \<Rightarrow> Inr (embedE (ProtoType h t) m)
      | repT f el \<Rightarrow> Inl (Panic NotAnElement)
      | mapT f k el \<Rightarrow> Inl (Panic NotAnElement))"

text \<open>
  Modelled from the spec: \<^verbatim>\<open>Name\<close> and \<^verbatim>\<open>FullyQualifiedName\<close>, declared in the missing
  files. The FQN is "dot-separated, package-qualified", "of the form
  \<^verbatim>\<open>.{package}.{entity}\<close>" (the comment on \<^verbatim>\<open>Lookup\<close> in \<^verbatim>\<open>ast.go\<close>): the name of an
  entity follows the FQN of its parent after a dot, and the entities of a file start
  from \<open>.\<close> and the package of the file (\<open>packageOf\<close>; a file has no parent entity). A
  parent is allocated before its children, so the walk goes to lower addresses only and
  stops at a parent pointer that does not.
\<close>

definition parentOf :: "obj \<Rightarrow> ref option" where
  "parentOf ob =
     (case ob of
        Pkg x \<Rightarrow> None
      | File x \<Rightarrow> None
      | Enum x \<Rightarrow> Some (enum_parent x)
      | EnumVal x \<Rightarrow> Some (ev_enum x)
      | Service x \<Rightarrow> Some (srv_file x)
      | Method x \<Rightarrow> Some (mth_service x)
      | Msg x \<Rightarrow> Some (msg_parent x)
      | Field x \<Rightarrow> Some (field_msg x)
      | OneOf x \<Rightarrow> Some (oneof_msg x))"

definition Name :: "obj \<Rightarrow> string" where
  "Name ob =
     (case ob of
        Pkg x \<Rightarrow> fd_package (pkg_fd x)
      | File x \<Rightarrow> fd_name (file_desc x)
      | Enum x \<Rightarrow> ed_name (enum_desc x)
      | EnumVal x \<Rightarrow> evd_name (ev_desc x)
      | Service x \<Rightarrow> sd_name (srv_desc x)
      | Method x \<Rightarrow> md_name (mth_desc x)
      | Msg x \<Rightarrow> dp_name (msg_desc x)
      | Field x \<Rightarrow> fdp_name (field_desc x)
      | OneOf x \<Rightarrow> od_name (oneof_desc x))"

definition packageOf :: "obj \<Rightarrow> string" where
  "packageOf ob =
     (case ob of
        Pkg x \<Rightarrow> fd_package (pkg_fd x)
      | File x \<Rightarrow> fd_package (file_desc x)
      | _ \<Rightarrow> [])"

function FullyQualifiedName :: "obj list \<Rightarrow> ref \<Rightarrow> string" where
  "FullyQualifiedName h r =
     (case cell h r of
        None \<Rightarrow> []
      | Some ob \<Rightarrow>
          (case parentOf ob of
             None \<Rightarrow> ''.'' @ packageOf ob
           | Some p \<Rightarrow> (if p < r then FullyQualifiedName h p else []) @ ''.'' @ Name ob))"
  by pat_completeness auto
termination
  by (relation "measure snd") auto

declare FullyQualifiedName.simps [simp del]

text \<open>
  Modelled from the spec: \<^verbatim>\<open>AllMessages\<close>, declared in the missing files, lists the
  messages the classification pass visits, "a dedicated pass over all messages'
  fields": the messages of the file and, below each message, its ordinary nested
  messages. The map entries of a message are not in the list; the pass reaches them
  through \<^verbatim>\<open>MapEntries\<close>. A nested message is allocated after its parent, so the walk
  goes to higher addresses only.
\<close>

function msg_AllMessages :: "obj list \<Rightarrow> ref \<Rightarrow> ref list" where
  "msg_AllMessages h m =
     (case cell h m of
        Some (Msg x) \<Rightarrow>
          msg_msgs x @
          concat (map (\<lambda>c. if m < c \<and> c < length h then msg_AllMessages h c else [])
                      (msg_msgs x))
      | _ \<Rightarrow> [])"
  by pat_completeness auto
termination
  by (relation "measure (\<lambda>(h, m). length h - m)") auto

declare msg_AllMessages.simps [simp del]

definition AllMessages :: "obj list \<Rightarrow> ref \<Rightarrow> ref list" where
  "AllMessages h fl =
     (case cell h fl of
        Some (File x) \<Rightarrow> file_msgs x @ concat (map (msg_AllMessages h) (file_msgs x))
      | _ \<Rightarrow> [])"

text \<open>
  Modelled from the spec: \<^verbatim>\<open>childAtPath\<close> and the path constants, declared in the
  missing files. A location path is made of "(field-number, index) pairs from the file
  root"; it is resolved "by walking the File's child structure (enclosing message, its
  nested message/enum/field lists, etc.) one path segment at a time until the addressed
  entity is found". A path that leaves the structure resolves to nothing. The numbers
  are those of the descriptor fields; the nested types of a message are indexed through
  \<^verbatim>\<open>preservedMsgs\<close>, which \<^verbatim>\<open>hydrateMessage\<close> fills in descriptor order for this use.
\<close>

definition packagePath :: int where "packagePath = 2"
definition messageTypePath :: int where "messageTypePath = 4"
definition enumTypePath :: int where "enumTypePath = 5"
definition servicePath :: int where "servicePath = 6"
definition syntaxPath :: int where "syntaxPath = 12"
definition messageTypeFieldPath :: int where "messageTypeFieldPath = 2"
definition messageTypeNestedTypePath :: int where "messageTypeNestedTypePath = 3"
definition messageTypeEnumTypePath :: int where "messageTypeEnumTypePath = 4"
definition messageTypeOneofDeclPath :: int where "messageTypeOneofDeclPath = 8"
definition enumTypeValuePath :: int where "enumTypeValuePath = 2"
definition serviceTypeMethodPath :: int where "serviceTypeMethodPath = 2"

definition at :: "'a list \<Rightarrow> int \<Rightarrow> 'a option" where
  "at xs i = (if 0 \<le> i \<and> nat i < length xs then Some (xs ! nat i) else None)"

definition child :: "obj list \<Rightarrow> ref \<Rightarrow> int \<Rightarrow> int \<Rightarrow> ref option" where
  "child h e num idx =
     (case cell h e of
        Some (File x) \<Rightarrow>
          (if num = messageTypePath then at (file_msgs x) idx
           else if num = enumTypePath then at (file_enums x) idx
           else if num = servicePath then at (file_srvs x) idx
           else None)
      | Some (Msg x) \<Rightarrow>
          (if num = messageTypeFieldPath then at (msg_fields x) idx
           else if num = messageTypeNestedTypePath then
             (case at (msg_preservedMsgs x) idx of Some c \<Rightarrow> c | None \<Rightarrow> None)
           else if num = messageTypeEnumTypePath then at (msg_enums x) idx
           else if num = messageTypeOneofDeclPath then at (msg_oneofs x) idx
           else None)
      | Some (Enum x) \<Rightarrow> (if num = enumTypeValuePath then at (enum_vals x) idx else None)
      | Some (Service x) \<Rightarrow>
          (if num = serviceTypeMethodPath then at (srv_methods x) idx else None)
      | _ \<Rightarrow> None)"

fun childAtPath :: "obj list \<Rightarrow> ref \<Rightarrow> int list \<Rightarrow> ref option" where
  "childAtPath h e [] = Some e"
| "childAtPath h e [num] = None"
| "childAtPath h e (num # idx # rest) =
     (case child h e num idx of None \<Rightarrow> None | Some c \<Rightarrow> childAtPath h c rest)"

section \<open>The code of \<^verbatim>\<open>ast.go\<close>\<close>

subsection \<open>The registry: \<^verbatim>\<open>add\<close>, \<^verbatim>\<open>resolveFQN\<close>, \<^verbatim>\<open>mustSeen\<close>\<close>

definition resolveFQN :: "obj list \<Rightarrow> ref \<Rightarrow> string" where
  "resolveFQN h e =
     (case cell h e of
        Some (File f) \<Rightarrow> Name (File f)
      | _ \<Rightarrow> FullyQualifiedName h e)"

definition add :: "ref \<Rightarrow> unit M" where
  "add e = modify (\<lambda>g. g\<lparr>entities := (entities g)(resolveFQN (objs g) e \<mapsto> e)\<rparr>)"

definition mustSeen :: "state \<Rightarrow> string \<Rightarrow> error + ref" where
  "mustSeen g fqn =
     (case entities g fqn of
        Some existing \<Rightarrow> Inr existing
      | None \<Rightarrow> Inl (Failf ''expected entity %q has not been hydrated'' fqn))"

text \<open>The type assertions \<^verbatim>\<open>.(Message)\<close> and \<^verbatim>\<open>.(Enum)\<close> on the entity that \<^verbatim>\<open>mustSeen\<close>
  returned: an entity of another kind makes the Go runtime panic.\<close>

definition assertMessage :: "state \<Rightarrow> ref \<Rightarrow> error + ref" where
  "assertMessage g e =
     (case cell (objs g) e of Some (Msg x) \<Rightarrow> Inr e | _ \<Rightarrow> Inl (Panic TypeAssertion))"

definition assertEnum :: "state \<Rightarrow> ref \<Rightarrow> error + ref" where
  "assertEnum g e =
     (case cell (objs g) e of Some (Enum x) \<Rightarrow> Inr e | _ \<Rightarrow> Inl (Panic TypeAssertion))"

definition andThen :: "error + 'a \<Rightarrow> ('a \<Rightarrow> error + 'b) \<Rightarrow> error + 'b" where
  "andThen r f = (case r of Inl e \<Rightarrow> Inl e | Inr x \<Rightarrow> f x)"

subsection \<open>Field types\<close>

text \<open>\<^verbatim>\<open>m.Fields()[i].Type().toElem()\<close>: the index may be out of range and the type of
  the field may still be \<^verbatim>\<open>nil\<close>.\<close>

definition elemOfField :: "state \<Rightarrow> ref \<Rightarrow> nat \<Rightarrow> error + FieldTypeElem" where
  "elemOfField g m i =
     (let fs = Fields (objs g) m in
      if i < length fs then
        (case Type (objs g) (fs ! i) of
           None \<Rightarrow> Inl (Panic NilDereference)
         | Some t \<Rightarrow> toElem (objs g) t)
      else Inl (Panic IndexOutOfRange))"

definition hydrateMapFieldType :: "state \<Rightarrow> FieldType \<Rightarrow> ref \<Rightarrow> error + FieldType" where
  "hydrateMapFieldType g r m =
     andThen (elemOfField g m 0) (\<lambda>key.
     andThen (elemOfField g m 1) (\<lambda>el.
     Inr (mapT (fld r) key el)))"

definition hydrateEnumFieldType :: "state \<Rightarrow> FieldType \<Rightarrow> error + FieldType" where
  "hydrateEnumFieldType g s =
     andThen (mustSeen g (fdp_type_name (Descriptor (objs g) (fld s)))) (\<lambda>e.
     andThen (assertEnum g e) (\<lambda>en.
     Inr (enumT (fld s) en)))"

definition hydrateEmbedFieldType :: "state \<Rightarrow> FieldType \<Rightarrow> error + FieldType" where
  "hydrateEmbedFieldType g s =
     andThen (mustSeen g (fdp_type_name (Descriptor (objs g) (fld s)))) (\<lambda>e.
     andThen (assertMessage g e) (\<lambda>m.
     Inr (embedT (fld s) m)))"

definition hydrateRepeatedFieldType :: "state \<Rightarrow> FieldType \<Rightarrow> error + FieldType" where
  "hydrateRepeatedFieldType g s =
     (let r = repT (fld s) (scalarE (ProtoType (objs g) s)) in
      if ProtoType (objs g) s = EnumT then
        andThen (mustSeen g (fdp_type_name (Descriptor (objs g) (fld s)))) (\<lambda>e.
        andThen (assertEnum g e) (\<lambda>en.
        Inr (repT (fld s) (enumE (ProtoType (objs g) r) en))))
      else if ProtoType (objs g) s = MessageT then
        andThen (mustSeen g (fdp_type_name (Descriptor (objs g) (fld s)))) (\<lambda>e.
        andThen (assertMessage g e) (\<lambda>m.
        if IsMapEntry (objs g) m then hydrateMapFieldType g r m
        else Inr (repT (fld s) (embedE (ProtoType (objs g) r) m))))
      else Inr r)"

definition hydrateFieldType :: "state \<Rightarrow> ref \<Rightarrow> error + FieldType" where
  "hydrateFieldType g f =
     (let s = scalarT f in
      if ProtoType (objs g) s = GroupT then
        Inl (Fail ''group types are deprecated and unsupported. Use an embedded message instead.'')
      else if ProtoLabel (objs g) s = Repeated then hydrateRepeatedFieldType g s
      else if ProtoType (objs g) s = EnumT then hydrateEnumFieldType g s
      else if ProtoType (objs g) s = MessageT then hydrateEmbedFieldType g s
      else Inr s)"

subsection \<open>Enums, services, fields and one-ofs\<close>

definition hydrateEnumValue :: "ref \<Rightarrow> EnumValueDescriptorProto \<Rightarrow> ref M" where
  "hydrateEnumValue e vd =
     bind (alloc (EnumVal \<lparr>ev_desc = vd, ev_enum = e, ev_info = None\<rparr>)) (\<lambda>ev.
     bind (add ev) (\<lambda>_.
     return ev))"

definition hydrateEnum :: "ref \<Rightarrow> EnumDescriptorProto \<Rightarrow> ref M" where
  "hydrateEnum p ed =
     bind (alloc (Enum \<lparr>enum_desc = ed, enum_parent = p, enum_vals = [], enum_info = None\<rparr>))
       (\<lambda>e.
     bind (add e) (\<lambda>_.
     bind (forRange (ed_value ed) (\<lambda>vd.
             bind (hydrateEnumValue e vd) (\<lambda>ev. addValue e ev))) (\<lambda>_.
     return e)))"

text \<open>The assignments \<^verbatim>\<open>m.in = ...\<close> and \<^verbatim>\<open>m.out = ...\<close> of \<^verbatim>\<open>hydrateMethod\<close>.\<close>

definition method_setIn :: "ref \<Rightarrow> ref \<Rightarrow> unit M" where
  "method_setIn m i =
     update m (\<lambda>ob. case ob of Method x \<Rightarrow> Method (x\<lparr>mth_in := Some i\<rparr>) | _ \<Rightarrow> ob)"

definition method_setOut :: "ref \<Rightarrow> ref \<Rightarrow> unit M" where
  "method_setOut m out =
     update m (\<lambda>ob. case ob of Method x \<Rightarrow> Method (x\<lparr>mth_out := Some out\<rparr>) | _ \<Rightarrow> ob)"

definition hydrateMethod :: "ref \<Rightarrow> MethodDescriptorProto \<Rightarrow> ref M" where
  "hydrateMethod sv md =
     bind (alloc (Method \<lparr>mth_desc = md, mth_service = sv, mth_in = None, mth_out = None,
                          mth_info = None\<rparr>)) (\<lambda>m.
     bind (add m) (\<lambda>_.
     bind (lift (\<lambda>g. andThen (mustSeen g (md_input_type md)) (assertMessage g))) (\<lambda>i.
     bind (method_setIn m i) (\<lambda>_.
     bind (lift (\<lambda>g. andThen (mustSeen g (md_output_type md)) (assertMessage g))) (\<lambda>out.
     bind (method_setOut m out) (\<lambda>_.
     return m))))))"

definition hydrateService :: "ref \<Rightarrow> ServiceDescriptorProto \<Rightarrow> ref M" where
  "hydrateService f sd =
     bind (alloc (Service \<lparr>srv_desc = sd, srv_file = f, srv_methods = [], srv_info = None\<rparr>))
       (\<lambda>sv.
     bind (add sv) (\<lambda>_.
     bind (forRange (sd_method sd) (\<lambda>md.
             bind (hydrateMethod sv md) (\<lambda>m. addMethod sv m))) (\<lambda>_.
     return sv)))"

definition hydrateField :: "ref \<Rightarrow> FieldDescriptorProto \<Rightarrow> ref M" where
  "hydrateField m fd =
     bind (alloc (Field \<lparr>field_desc = fd, field_msg = m, field_typ = None, field_info = None\<rparr>))
       (\<lambda>f.
     bind (add f) (\<lambda>_.
     return f))"

definition hydrateOneOf :: "ref \<Rightarrow> OneofDescriptorProto \<Rightarrow> ref M" where
  "hydrateOneOf m od =
     bind (alloc (OneOf \<lparr>oneof_desc = od, oneof_msg = m, oneof_flds = [], oneof_info = None\<rparr>))
       (\<lambda>o1.
     bind (add o1) (\<lambda>_.
     return o1))"

subsection \<open>Messages\<close>

text \<open>\<^verbatim>\<open>m.preservedMsgs = make([]Message, n)\<close> and \<^verbatim>\<open>m.preservedMsgs[i] = nm\<close>; the slice
  has the length of the nested types, so the index of the loop is in range.\<close>

definition msg_makePreservedMsgs :: "ref \<Rightarrow> nat \<Rightarrow> unit M" where
  "msg_makePreservedMsgs m n =
     update m (\<lambda>ob. case ob of Msg x \<Rightarrow> Msg (x\<lparr>msg_preservedMsgs := replicate n None\<rparr>)
                     | _ \<Rightarrow> ob)"

definition msg_setPreservedMsg :: "ref \<Rightarrow> nat \<Rightarrow> ref \<Rightarrow> unit M" where
  "msg_setPreservedMsg m i nm =
     update m (\<lambda>ob. case ob of
                       Msg x \<Rightarrow> Msg (x\<lparr>msg_preservedMsgs := (msg_preservedMsgs x)[i := Some nm]\<rparr>)
                     | _ \<Rightarrow> ob)"

text \<open>\<^verbatim>\<open>m.oneofs[*idx]\<close>: the index is the \<^verbatim>\<open>int32\<close> of the descriptor; an index that is
  negative or not below the number of one-ofs makes the Go runtime panic.\<close>

definition oneofAt :: "state \<Rightarrow> ref \<Rightarrow> int \<Rightarrow> error + ref" where
  "oneofAt g m idx =
     (case cell (objs g) m of
        Some (Msg x) \<Rightarrow>
          (case at (msg_oneofs x) idx of
             Some o1 \<Rightarrow> Inr o1
           | None \<Rightarrow> Inl (Panic IndexOutOfRange))
      | _ \<Rightarrow> Inl (Panic NilDereference))"

text \<open>The branch of \<^verbatim>\<open>hydrateMessage\<close> on a nested message that has just been hydrated:
  \<^verbatim>\<open>if nm.IsMapEntry() { m.addMapEntry(nm) } else { m.addMessage(nm) }\<close>.\<close>

definition addNested :: "ref \<Rightarrow> ref \<Rightarrow> unit M" where
  "addNested m nm =
     bind (gets (\<lambda>g. IsMapEntry (objs g) nm)) (\<lambda>isMapEntry.
     if isMapEntry then addMapEntry m nm else msg_addMessage m nm)"

fun hydrateMessage :: "ref \<Rightarrow> DescriptorProto \<Rightarrow> ref M"
  and hydrateNestedTypes :: "ref \<Rightarrow> nat \<Rightarrow> DescriptorProto list \<Rightarrow> unit M" where
  "hydrateMessage p (DescriptorProto nm flds nested enums oneofs map_entry) =
     bind (alloc (Msg \<lparr>msg_desc = DescriptorProto nm flds nested enums oneofs map_entry,
                       msg_parent = p, msg_enums = [], msg_msgs = [], msg_preservedMsgs = [],
                       msg_maps = [], msg_oneofs = [], msg_fields = [], msg_info = None\<rparr>))
       (\<lambda>m.
     bind (add m) (\<lambda>_.
     bind (forRange enums (\<lambda>ed.
             bind (hydrateEnum m ed) (\<lambda>e. msg_addEnum m e))) (\<lambda>_.
     bind (msg_makePreservedMsgs m (length nested)) (\<lambda>_.
     bind (hydrateNestedTypes m 0 nested) (\<lambda>_.
     bind (forRange oneofs (\<lambda>od.
             bind (hydrateOneOf m od) (\<lambda>o1. addOneOf m o1))) (\<lambda>_.
     bind (forRange flds (\<lambda>fd.
             bind (hydrateField m fd) (\<lambda>f.
             bind (msg_addField m f) (\<lambda>_.
             case fdp_oneof_index fd of
               None \<Rightarrow> return ()
             | Some idx \<Rightarrow>
                 bind (lift (\<lambda>g. oneofAt g m idx)) (\<lambda>o1. oneof_addField o1 f))))) (\<lambda>_.
     return m)))))))"
| "hydrateNestedTypes m i [] = return ()"
| "hydrateNestedTypes m i (nmd # rest) =
     bind (hydrateMessage m nmd) (\<lambda>nm.
     bind (addNested m nm) (\<lambda>_.
     bind (msg_setPreservedMsg m i nm) (\<lambda>_.
     hydrateNestedTypes m (Suc i) rest)))"

subsection \<open>Source locations\<close>

text \<open>The body of the loop of \<^verbatim>\<open>hydrateSourceCodeInfo\<close> for one location: after the
  \<^verbatim>\<open>switch\<close> on a path of length one, the cases \<^verbatim>\<open>syntaxPath\<close> and \<^verbatim>\<open>packagePath\<close> go on
  to the lookup of the child, and the \<^verbatim>\<open>default\<close> case leaves the iteration
  (\<^verbatim>\<open>continue\<close>).\<close>

definition attachToChild :: "ref \<Rightarrow> int list \<Rightarrow> Location \<Rightarrow> unit M" where
  "attachToChild f path info =
     bind (gets (\<lambda>g. childAtPath (objs g) f path)) (\<lambda>e.
     case e of None \<Rightarrow> return () | Some e' \<Rightarrow> addSourceCodeInfo e' info)"

definition hydrateLocation :: "ref \<Rightarrow> Location \<Rightarrow> unit M" where
  "hydrateLocation f loc =
     (let info = loc; path = loc_path loc in
      if length path = 1 then
        (if path ! 0 = syntaxPath then
           bind (addSourceCodeInfo f info) (\<lambda>_. attachToChild f path info)
         else if path ! 0 = packagePath then
           bind (addPackageSourceCodeInfo f info) (\<lambda>_. attachToChild f path info)
         else return ())
      else attachToChild f path info)"

definition hydrateSourceCodeInfo :: "ref \<Rightarrow> FileDescriptorProto \<Rightarrow> unit M" where
  "hydrateSourceCodeInfo f fd = forRange (fd_source_code_info fd) (hydrateLocation f)"

subsection \<open>Files and packages\<close>

text \<open>\<^verbatim>\<open>_, fl.buildTarget = g.targets[f.GetName()]\<close>: the flag is whether the name is a
  key of the target map.\<close>

definition file_setBuildTarget :: "ref \<Rightarrow> bool \<Rightarrow> unit M" where
  "file_setBuildTarget fl b =
     update fl (\<lambda>ob. case ob of File x \<Rightarrow> File (x\<lparr>file_buildTarget := b\<rparr>) | _ \<Rightarrow> ob)"

text \<open>The classification pass of \<^verbatim>\<open>hydrateFile\<close>: \<^verbatim>\<open>fld.addType(g.hydrateFieldType(fld))\<close>
  for one field, the loop over the fields of one message, and the body of the loop
  over \<^verbatim>\<open>fl.AllMessages()\<close>, which takes the fields of the map entries of the message
  first and the fields of the message itself after them.\<close>

definition classifyField :: "ref \<Rightarrow> unit M" where
  "classifyField f = bind (lift (\<lambda>g. hydrateFieldType g f)) (\<lambda>t. addType f t)"

definition classifyFields :: "ref \<Rightarrow> unit M" where
  "classifyFields m =
     bind (gets (\<lambda>g. Fields (objs g) m)) (\<lambda>flds.
     forRange flds classifyField)"

definition classifyMessage :: "ref \<Rightarrow> unit M" where
  "classifyMessage m =
     bind (gets (\<lambda>g. MapEntries (objs g) m)) (\<lambda>mes.
     bind (forRange mes classifyFields) (\<lambda>_.
     classifyFields m))"

text \<open>The part of \<^verbatim>\<open>hydrateFile\<close> after the file is registered and its target entry is
  set: the three loops over the enums, messages and services of the descriptor, the
  classification pass and the source locations.\<close>

definition hydrateFileBody :: "ref \<Rightarrow> FileDescriptorProto \<Rightarrow> unit M" where
  "hydrateFileBody fl f =
     bind (forRange (fd_enum_type f) (\<lambda>e.
             bind (hydrateEnum fl e) (\<lambda>en. file_addEnum fl en))) (\<lambda>_.
     bind (forRange (fd_message_type f) (\<lambda>md.
             bind (hydrateMessage fl md) (\<lambda>m. file_addMessage fl m))) (\<lambda>_.
     bind (forRange (fd_service f) (\<lambda>sd.
             bind (hydrateService fl sd) (\<lambda>sv. file_addService fl sv))) (\<lambda>_.
     bind (gets (\<lambda>g. AllMessages (objs g) fl)) (\<lambda>ms.
     bind (forRange ms classifyMessage) (\<lambda>_.
     hydrateSourceCodeInfo fl f)))))"

definition hydrateFile :: "ref \<Rightarrow> FileDescriptorProto \<Rightarrow> ref M" where
  "hydrateFile pk f =
     bind (alloc (File \<lparr>file_pkg = pk, file_desc = f, file_buildTarget = False,
                        file_enums = [], file_msgs = [], file_srvs = [],
                        file_syntaxInfo = None, file_packageInfo = None\<rparr>)) (\<lambda>fl.
     bind (add fl) (\<lambda>_.
     bind (gets (\<lambda>g. targets g (fd_name f) \<noteq> None)) (\<lambda>buildTarget.
     bind (file_setBuildTarget fl buildTarget) (\<lambda>_.
     bind (if buildTarget
           then modify (\<lambda>g. g\<lparr>targets := (targets g)(fd_name f \<mapsto> Some fl)\<rparr>)
           else return ()) (\<lambda>_.
     bind (hydrateFileBody fl f) (\<lambda>_.
     return fl))))))"

definition hydratePackage :: "FileDescriptorProto \<Rightarrow> ref M" where
  "hydratePackage f =
     (let lookup = fd_package f in
      bind (gets (\<lambda>g. packages g lookup)) (\<lambda>found.
      case found of
        Some pk \<Rightarrow> return pk
      | None \<Rightarrow>
          bind (alloc (Pkg \<lparr>pkg_fd = f, pkg_files = []\<rparr>)) (\<lambda>p.
          bind (modify (\<lambda>g. g\<lparr>packages := (packages g)(lookup \<mapsto> p)\<rparr>)) (\<lambda>_.
          return p))))"

subsection \<open>\<^verbatim>\<open>ProcessDescriptors\<close>\<close>

definition newGraph :: state where
  "newGraph = \<lparr>targets = Map.empty, packages = Map.empty, entities = Map.empty, objs = []\<rparr>"

definition processFile :: "FileDescriptorProto \<Rightarrow> unit M" where
  "processFile f =
     bind (hydratePackage f) (\<lambda>pk.
     bind (hydrateFile pk f) (\<lambda>fl.
     pkg_addFile pk fl))"

definition ProcessDescriptors :: "CodeGeneratorRequest \<Rightarrow> error + state" where
  "ProcessDescriptors req =
     (case bind (forRange (file_to_generate req) (\<lambda>f.
                   modify (\<lambda>g. g\<lparr>targets := (targets g)(f \<mapsto> None)\<rparr>))) (\<lambda>_.
           forRange (proto_file req) processFile) newGraph of
        Inl e \<Rightarrow> Inl e
      | Inr (_, g) \<Rightarrow> Inr g)"

section \<open>Invariants of the construction\<close>

text \<open>The hydrated entities are the objects of the store other than the packages,
  which are not entities and are not registered.\<close>

definition isEntity :: "obj \<Rightarrow> bool" where
  "isEntity ob = (case ob of Pkg x \<Rightarrow> False | _ \<Rightarrow> True)"

definition hydrated :: "obj list \<Rightarrow> ref list" where
  "hydrated h = filter (\<lambda>r. isEntity (h ! r)) [0..<length h]"

text \<open>A batch is well formed when no two hydrated entities share a resolved FQN.\<close>

definition wellFormed :: "state \<Rightarrow> bool" where
  "wellFormed g \<longleftrightarrow> distinct (map (resolveFQN (objs g)) (hydrated (objs g)))"

text \<open>The part of an object that no assignment of \<^verbatim>\<open>ast.go\<close> changes: its descriptor
  (which also tells its kind) and its parent.\<close>

datatype descriptor =
    PkgD FileDescriptorProto
  | FileD FileDescriptorProto
  | EnumD EnumDescriptorProto
  | EnumValD EnumValueDescriptorProto
  | ServiceD ServiceDescriptorProto
  | MethodD MethodDescriptorProto
  | MsgD DescriptorProto
  | FieldD FieldDescriptorProto
  | OneOfD OneofDescriptorProto

definition descOf :: "obj \<Rightarrow> descriptor" where
  "descOf ob =
     (case ob of
        Pkg x \<Rightarrow> PkgD (pkg_fd x)
      | File x \<Rightarrow> FileD (file_desc x)
      | Enum x \<Rightarrow> EnumD (enum_desc x)
      | EnumVal x \<Rightarrow> EnumValD (ev_desc x)
      | Service x \<Rightarrow> ServiceD (srv_desc x)
      | Method x \<Rightarrow> MethodD (mth_desc x)
      | Msg x \<Rightarrow> MsgD (msg_desc x)
      | Field x \<Rightarrow> FieldD (field_desc x)
      | OneOf x \<Rightarrow> OneOfD (oneof_desc x))"

definition ident :: "obj \<Rightarrow> descriptor \<times> ref option" where
  "ident ob = (descOf ob, parentOf ob)"

text \<open>\<open>extv v h h'\<close>: the store \<open>h'\<close> extends \<open>h\<close> and the view \<open>v\<close> of every object of
  \<open>h\<close> is unchanged.\<close>

definition extv :: "(obj \<Rightarrow> 'v) \<Rightarrow> obj list \<Rightarrow> obj list \<Rightarrow> bool" where
  "extv v h h' \<longleftrightarrow> length h \<le> length h' \<and> (\<forall>i<length h. v (h' ! i) = v (h ! i))"

text \<open>The registry holds entities under their resolved FQN, and every hydrated entity
  has an entry under its resolved FQN.\<close>

definition registry_inv :: "state \<Rightarrow> bool" where
  "registry_inv g \<longleftrightarrow>
     (\<forall>k r. entities g k = Some r \<longrightarrow>
        r < length (objs g) \<and> isEntity (objs g ! r) \<and> resolveFQN (objs g) r = k) \<and>
     (\<forall>r<length (objs g). isEntity (objs g ! r) \<longrightarrow> entities g (resolveFQN (objs g) r) \<noteq> None)"

text \<open>\<open>keeps R f\<close>: every successful run of \<open>f\<close> relates the state before to the state
  after by \<open>R\<close>.\<close>

definition keeps :: "(state \<Rightarrow> state \<Rightarrow> bool) \<Rightarrow> 'a M \<Rightarrow> bool" where
  "keeps R f \<longleftrightarrow> (\<forall>s x s'. f s = Inr (x, s') \<longrightarrow> R s s')"

definition fqn_step :: "state \<Rightarrow> state \<Rightarrow> bool" where
  "fqn_step s s' \<longleftrightarrow> extv ident (objs s) (objs s') \<and> (registry_inv s \<longrightarrow> registry_inv s')"

text \<open>A new object as \<^verbatim>\<open>ast.go\<close> allocates it: no children, no type, no source
  location yet.\<close>

definition fresh :: "obj \<Rightarrow> bool" where
  "fresh ob =
     (case ob of
        Pkg x \<Rightarrow> pkg_files x = []
      | File x \<Rightarrow> \<not> file_buildTarget x \<and> file_enums x = [] \<and> file_msgs x = [] \<and>
                  file_srvs x = [] \<and> file_syntaxInfo x = None \<and> file_packageInfo x = None
      | Enum x \<Rightarrow> enum_vals x = [] \<and> enum_info x = None
      | EnumVal x \<Rightarrow> ev_info x = None
      | Service x \<Rightarrow> srv_methods x = [] \<and> srv_info x = None
      | Method x \<Rightarrow> mth_in x = None \<and> mth_out x = None \<and> mth_info x = None
      | Msg x \<Rightarrow> msg_enums x = [] \<and> msg_msgs x = [] \<and> msg_preservedMsgs x = [] \<and>
                 msg_maps x = [] \<and> msg_oneofs x = [] \<and> msg_fields x = [] \<and> msg_info x = None
      | Field x \<Rightarrow> field_typ x = None \<and> field_info x = None
      | OneOf x \<Rightarrow> oneof_flds x = [] \<and> oneof_info x = None)"

text \<open>The assignments that link a new child into the lists of its owner.\<close>

inductive structural :: "unit M \<Rightarrow> bool" where
  "structural (addValue a b)"
| "structural (addMethod a b)"
| "structural (msg_addEnum a b)"
| "structural (msg_makePreservedMsgs a n)"
| "structural (msg_setPreservedMsg a n b)"
| "structural (addOneOf a b)"
| "structural (msg_addField a b)"
| "structural (oneof_addField a b)"
| "structural (file_addEnum a b)"
| "structural (file_addMessage a b)"
| "structural (file_addService a b)"

text \<open>\<open>yieldsMsg f\<close>: what a successful run of \<open>f\<close> returns is a message of the store.\<close>

definition yieldsMsg :: "ref M \<Rightarrow> bool" where
  "yieldsMsg f \<longleftrightarrow>
     (\<forall>s x s'. f s = Inr (x, s') \<longrightarrow> x < length (objs s') \<and> (\<exists>y. objs s' ! x = Msg y))"

text \<open>A relation between states that the steps of the hydration of a file keep; it is
  then kept by the hydration of every enum, message and service and by the body of
  \<^verbatim>\<open>hydrateFile\<close>. The steps are: a new entity with its registration, the assignments
  that link a child to its owner, \<^verbatim>\<open>hydrateMethod\<close>, the sorting of a nested message that
  has just been hydrated, the classification of a field, and the attachment of a source
  location.\<close>

definition traversable :: "(state \<Rightarrow> state \<Rightarrow> bool) \<Rightarrow> bool" where
  "traversable R \<longleftrightarrow>
     reflp R \<and> transp R \<and>
     (\<forall>ob (k :: ref \<Rightarrow> ref M). isEntity ob \<longrightarrow> fresh ob \<longrightarrow> (\<forall>r. keeps R (k r)) \<longrightarrow>
        keeps R (bind (alloc ob) (\<lambda>r. bind (add r) (\<lambda>_. k r)))) \<and>
     (\<forall>u. structural u \<longrightarrow> keeps R u) \<and>
     (\<forall>sv md. keeps R (hydrateMethod sv md)) \<and>
     (\<forall>m hm (k :: ref \<Rightarrow> unit M). keeps R hm \<longrightarrow> yieldsMsg hm \<longrightarrow> (\<forall>nm. keeps R (k nm)) \<longrightarrow>
        keeps R (bind hm (\<lambda>nm. bind (addNested m nm) (\<lambda>_. k nm)))) \<and>
     (\<forall>f. keeps R (classifyField f)) \<and>
     (\<forall>e info. keeps R (addSourceCodeInfo e info)) \<and>
     (\<forall>e info. keeps R (addPackageSourceCodeInfo e info))"

text \<open>The steps of \<^verbatim>\<open>ProcessDescriptors\<close> outside the body of \<^verbatim>\<open>hydrateFile\<close>: the
  build-target flag, the target and package maps, a new package and its files.\<close>

definition traversable_top :: "(state \<Rightarrow> state \<Rightarrow> bool) \<Rightarrow> bool" where
  "traversable_top R \<longleftrightarrow>
     traversable R \<and>
     (\<forall>fl b. keeps R (file_setBuildTarget fl b)) \<and>
     (\<forall>f. (\<forall>g. objs (f g) = objs g \<and> entities (f g) = entities g) \<longrightarrow> keeps R (modify f)) \<and>
     (\<forall>fd. keeps R (alloc (Pkg \<lparr>pkg_fd = fd, pkg_files = []\<rparr>))) \<and>
     (\<forall>p f. keeps R (pkg_addFile p f))"

text \<open>What the hydration of the contents of a file leaves alone in the objects that
  exist already: besides the descriptor and the parent, the package and the build-target
  flag of a file and the files of a package.\<close>

definition fileBits :: "obj \<Rightarrow> (ref \<times> bool) option" where
  "fileBits ob = (case ob of File x \<Rightarrow> Some (file_pkg x, file_buildTarget x) | _ \<Rightarrow> None)"

definition pkgFiles :: "obj \<Rightarrow> ref list" where
  "pkgFiles ob = (case ob of Pkg x \<Rightarrow> pkg_files x | _ \<Rightarrow> [])"

definition core :: "obj \<Rightarrow> descriptor \<times> ref option \<times> (ref \<times> bool) option \<times> ref list" where
  "core ob = (descOf ob, parentOf ob, fileBits ob, pkgFiles ob)"

definition core_step :: "state \<Rightarrow> state \<Rightarrow> bool" where
  "core_step s s' \<longleftrightarrow>
     extv core (objs s) (objs s') \<and> targets s' = targets s \<and> packages s' = packages s"

text \<open>What a whole \<^verbatim>\<open>processFile\<close> step keeps of the objects that exist already: the
  descriptor, the package and build-target flag of a file, and the files a package has
  (it may get more).\<close>

definition top_step :: "state \<Rightarrow> state \<Rightarrow> bool" where
  "top_step s s' \<longleftrightarrow>
     extv (\<lambda>ob. (descOf ob, fileBits ob)) (objs s) (objs s') \<and>
     (\<forall>p<length (objs s). set (pkgFiles (objs s ! p)) \<subseteq> set (pkgFiles (objs s' ! p)))"

text \<open>The target map after the files \<open>seen\<close> are processed: its keys are the requested
  names; a name that some file seen so far has is mapped to the File built from the
  last such descriptor, whose build-target flag is set; any other requested name is
  still mapped to \<^verbatim>\<open>nil\<close>.\<close>

definition tgt_inv :: "string list \<Rightarrow> FileDescriptorProto list \<Rightarrow> state \<Rightarrow> bool" where
  "tgt_inv names seen s \<longleftrightarrow>
     (\<forall>n. targets s n \<noteq> None \<longleftrightarrow> n \<in> set names) \<and>
     (\<forall>n \<in> set names.
        case filter (\<lambda>fd. fd_name fd = n) seen of
          [] \<Rightarrow> targets s n = Some None
        | fd # fds \<Rightarrow>
            (\<exists>fl pk. targets s n = Some (Some fl) \<and> fl < length (objs s) \<and>
               descOf (objs s ! fl) = FileD (last (fd # fds)) \<and>
               fileBits (objs s ! fl) = Some (pk, True)))"

text \<open>The package map after the files \<open>seen\<close> are processed: its keys are the package
  names seen, each mapped to a package object, and the File built from each descriptor
  is among the files of the package registered under the name of its package.\<close>

definition pkg_inv :: "FileDescriptorProto list \<Rightarrow> state \<Rightarrow> bool" where
  "pkg_inv seen s \<longleftrightarrow>
     (\<forall>k. packages s k \<noteq> None \<longleftrightarrow> k \<in> fd_package ` set seen) \<and>
     (\<forall>k p. packages s k = Some p \<longrightarrow>
        p < length (objs s) \<and> (\<exists>fd. descOf (objs s ! p) = PkgD fd)) \<and>
     (\<forall>fd \<in> set seen. \<exists>p fl b.
        packages s (fd_package fd) = Some p \<and> fl \<in> set (pkgFiles (objs s ! p)) \<and>
        fl < length (objs s) \<and> descOf (objs s ! fl) = FileD fd \<and>
        fileBits (objs s ! fl) = Some (p, b))"

text \<open>What the classification pass and the source locations leave alone: the descriptor
  of every object and the lists of messages, fields and map entries, so the pass visits
  the fields it was started on. A field that has a type keeps having one.\<close>

definition shape :: "obj \<Rightarrow> descriptor \<times> ref list \<times> ref list \<times> ref list" where
  "shape ob =
     (descOf ob,
      (case ob of File x \<Rightarrow> file_msgs x | Msg x \<Rightarrow> msg_msgs x | _ \<Rightarrow> []),
      (case ob of Msg x \<Rightarrow> msg_fields x | _ \<Rightarrow> []),
      (case ob of Msg x \<Rightarrow> msg_maps x | _ \<Rightarrow> []))"

definition typed :: "obj \<Rightarrow> bool" where
  "typed ob = (case ob of Field x \<Rightarrow> field_typ x \<noteq> None | _ \<Rightarrow> False)"

definition pass_step :: "state \<Rightarrow> state \<Rightarrow> bool" where
  "pass_step s s' \<longleftrightarrow>
     map shape (objs s') = map shape (objs s) \<and>
     (\<forall>i<length (objs s). typed (objs s ! i) \<longrightarrow> typed (objs s' ! i))"

text \<open>A field of the deprecated group type, and a message whose classification visits
  such a field (among its own fields or the fields of its map entries).\<close>

definition groupField :: "obj list \<Rightarrow> ref \<Rightarrow> bool" where
  "groupField h f \<longleftrightarrow> fdp_type (Descriptor h f) = GroupT"

definition visitsGroup :: "obj list \<Rightarrow> ref \<Rightarrow> bool" where
  "visitsGroup h m \<longleftrightarrow>
     (\<exists>f \<in> set (Fields h m). groupField h f) \<or>
     (\<exists>me \<in> set (MapEntries h m). \<exists>f \<in> set (Fields h me). groupField h f)"

text \<open>No field of the group type has a FieldType.\<close>

definition group_inv :: "state \<Rightarrow> bool" where
  "group_inv g \<longleftrightarrow>
     (\<forall>r x. cell (objs g) r = Some (Field x) \<longrightarrow> field_typ x \<noteq> None \<longrightarrow>
        fdp_type (field_desc x) \<noteq> GroupT)"

definition grp_step :: "state \<Rightarrow> state \<Rightarrow> bool" where
  "grp_step s s' \<longleftrightarrow> (group_inv s \<longrightarrow> group_inv s')"

text \<open>The descriptor and the type of a field.\<close>

definition typing :: "obj \<Rightarrow> (FieldDescriptorProto \<times> FieldType option) option" where
  "typing ob = (case ob of Field x \<Rightarrow> Some (field_desc x, field_typ x) | _ \<Rightarrow> None)"

section \<open>Example inputs\<close>

text \<open>A request for one file of package \<open>x\<close> with one enum, and the graph built from it.\<close>

definition ex_enum_file :: FileDescriptorProto where
  "ex_enum_file =
     \<lparr>fd_name = ''a.proto'', fd_package = ''x'', fd_message_type = [],
      fd_enum_type = [\<lparr>ed_name = ''E'', ed_value = []\<rparr>], fd_service = [],
      fd_source_code_info = []\<rparr>"

definition ex_enum_request :: CodeGeneratorRequest where
  "ex_enum_request = \<lparr>file_to_generate = [''a.proto''], proto_file = [ex_enum_file]\<rparr>"

definition ex_enum_graph :: state where
  "ex_enum_graph =
     \<lparr>targets = [''a.proto'' \<mapsto> Some (Suc 0)],
      packages = [''x'' \<mapsto> 0],
      entities = [''a.proto'' \<mapsto> Suc 0, ''.x.E'' \<mapsto> Suc (Suc 0)],
      objs =
        [Pkg \<lparr>pkg_fd = ex_enum_file, pkg_files = [Suc 0]\<rparr>,
         File \<lparr>file_pkg = 0, file_desc = ex_enum_file, file_buildTarget = True,
               file_enums = [Suc (Suc 0)], file_msgs = [], file_srvs = [],
               file_syntaxInfo = None, file_packageInfo = None\<rparr>,
         Enum \<lparr>enum_desc = \<lparr>ed_name = ''E'', ed_value = []\<rparr>, enum_parent = Suc 0,
               enum_vals = [], enum_info = None\<rparr>]\<rparr>"

text \<open>The end-to-end scenario of the spec: package \<open>x\<close> with \<^verbatim>\<open>b.proto\<close> (message \<open>B\<close>,
  no fields) processed before \<^verbatim>\<open>a.proto\<close> (message \<open>A\<close> with the repeated field \<open>items\<close> of
  type \<open>.x.B\<close>); the requested targets are \<^verbatim>\<open>zz.proto\<close>, which no descriptor has, and
  \<^verbatim>\<open>a.proto\<close>.\<close>

definition ex_b_file :: FileDescriptorProto where
  "ex_b_file =
     \<lparr>fd_name = ''b.proto'', fd_package = ''x'',
      fd_message_type = [DescriptorProto ''B'' [] [] [] [] False],
      fd_enum_type = [], fd_service = [], fd_source_code_info = []\<rparr>"

definition ex_items_field :: FieldDescriptorProto where
  "ex_items_field =
     \<lparr>fdp_name = ''items'', fdp_label = Repeated, fdp_type = MessageT,
      fdp_type_name = ''.x.B'', fdp_oneof_index = None\<rparr>"

definition ex_a_file :: FileDescriptorProto where
  "ex_a_file =
     \<lparr>fd_name = ''a.proto'', fd_package = ''x'',
      fd_message_type = [DescriptorProto ''A'' [ex_items_field] [] [] [] False],
      fd_enum_type = [], fd_service = [], fd_source_code_info = []\<rparr>"

definition ex_ab_request :: CodeGeneratorRequest where
  "ex_ab_request =
     \<lparr>file_to_generate = [''zz.proto'', ''a.proto''], proto_file = [ex_b_file, ex_a_file]\<rparr>"

definition ex_ab_graph :: state where
  "ex_ab_graph =
     \<lparr>targets = [''zz.proto'' \<mapsto> None, ''a.proto'' \<mapsto> Some 3],
      packages = [''x'' \<mapsto> 0],
      entities = [''b.proto'' \<mapsto> 1, ''.x.B'' \<mapsto> 2, ''a.proto'' \<mapsto> 3, ''.x.A'' \<mapsto> 4,
                  ''.x.A.items'' \<mapsto> 5],
      objs =
        [Pkg \<lparr>pkg_fd = ex_b_file, pkg_files = [1, 3]\<rparr>,
         File \<lparr>file_pkg = 0, file_desc = ex_b_file, file_buildTarget = False,
               file_enums = [], file_msgs = [2], file_srvs = [],
               file_syntaxInfo = None, file_packageInfo = None\<rparr>,
         Msg \<lparr>msg_desc = DescriptorProto ''B'' [] [] [] [] False, msg_parent = 1,
              msg_enums = [], msg_msgs = [], msg_preservedMsgs = [], msg_maps = [],
              msg_oneofs = [], msg_fields = [], msg_info = None\<rparr>,
         File \<lparr>file_pkg = 0, file_desc = ex_a_file, file_buildTarget = True,
               file_enums = [], file_msgs = [4], file_srvs = [],
               file_syntaxInfo = None, file_packageInfo = None\<rparr>,
         Msg \<lparr>msg_desc = DescriptorProto ''A'' [ex_items_field] [] [] [] False, msg_parent = 3,
              msg_enums = [], msg_msgs = [], msg_preservedMsgs = [], msg_maps = [],
              msg_oneofs = [], msg_fields = [5], msg_info = None\<rparr>,
         Field \<lparr>field_desc = ex_items_field, field_msg = 4,
                field_typ = Some (repT 5 (embedE MessageT 2)), field_info = None\<rparr>]\<rparr>"

text \<open>A graph whose only object is the field \<open>items\<close> of type \<open>.x.B\<close>, with nothing
  registered, and a method whose input type \<open>.x.Req\<close> is registered nowhere.\<close>

definition ex_orphan_graph :: state where
  "ex_orphan_graph =
     \<lparr>targets = Map.empty, packages = Map.empty, entities = Map.empty,
      objs = [Field \<lparr>field_desc = ex_items_field, field_msg = 0, field_typ = None,
                     field_info = None\<rparr>]\<rparr>"

definition ex_ping_method :: MethodDescriptorProto where
  "ex_ping_method = \<lparr>md_name = ''Ping'', md_input_type = ''.x.Req'', md_output_type = ''.x.B''\<rparr>"

text \<open>Location records: a comment on the package statement, a comment on the first
  field of the first message, and a comment whose path of length one is neither the
  syntax nor the package field number.\<close>

definition ex_package_loc :: Location where
  "ex_package_loc = \<lparr>loc_path = [2], loc_leading_comments = ''the package''\<rparr>"

definition ex_field_loc :: Location where
  "ex_field_loc = \<lparr>loc_path = [4, 0, 2, 0], loc_leading_comments = ''the items''\<rparr>"

definition ex_other_loc :: Location where
  "ex_other_loc = \<lparr>loc_path = [9], loc_leading_comments = ''an option''\<rparr>"

text \<open>A file whose message \<open>G\<close> has a field of the group type; the graph as it is when the
  classification pass starts on that file; and the graph before and after
  \<^verbatim>\<open>hydrateFile\<close> runs on \<^verbatim>\<open>b.proto\<close> alone.\<close>

definition ex_group_field :: FieldDescriptorProto where
  "ex_group_field =
     \<lparr>fdp_name = ''old'', fdp_label = Optional, fdp_type = GroupT,
      fdp_type_name = ''.x.G.Old'', fdp_oneof_index = None\<rparr>"

definition ex_group_file :: FileDescriptorProto where
  "ex_group_file =
     \<lparr>fd_name = ''g.proto'', fd_package = ''x'',
      fd_message_type = [DescriptorProto ''G'' [ex_group_field] [] [] [] False],
      fd_enum_type = [], fd_service = [], fd_source_code_info = []\<rparr>"

definition ex_group_request :: CodeGeneratorRequest where
  "ex_group_request = \<lparr>file_to_generate = [''g.proto''], proto_file = [ex_group_file]\<rparr>"

definition ex_group_graph :: state where
  "ex_group_graph =
     \<lparr>targets = [''g.proto'' \<mapsto> Some 1],
      packages = [''x'' \<mapsto> 0],
      entities = [''g.proto'' \<mapsto> 1, ''.x.G'' \<mapsto> 2, ''.x.G.old'' \<mapsto> 3],
      objs =
        [Pkg \<lparr>pkg_fd = ex_group_file, pkg_files = []\<rparr>,
         File \<lparr>file_pkg = 0, file_desc = ex_group_file, file_buildTarget = True,
               file_enums = [], file_msgs = [2], file_srvs = [],
               file_syntaxInfo = None, file_packageInfo = None\<rparr>,
         Msg \<lparr>msg_desc = DescriptorProto ''G'' [ex_group_field] [] [] [] False, msg_parent = 1,
              msg_enums = [], msg_msgs = [], msg_preservedMsgs = [], msg_maps = [],
              msg_oneofs = [], msg_fields = [3], msg_info = None\<rparr>,
         Field \<lparr>field_desc = ex_group_field, field_msg = 2, field_typ = None,
                field_info = None\<rparr>]\<rparr>"

definition ex_pkg_graph :: state where
  "ex_pkg_graph =
     \<lparr>targets = Map.empty, packages = [''x'' \<mapsto> 0], entities = Map.empty,
      objs = [Pkg \<lparr>pkg_fd = ex_b_file, pkg_files = []\<rparr>]\<rparr>"

definition ex_b_graph :: state where
  "ex_b_graph =
     \<lparr>targets = Map.empty, packages = [''x'' \<mapsto> 0],
      entities = [''b.proto'' \<mapsto> Suc 0, ''.x.B'' \<mapsto> Suc (Suc 0)],
      objs =
        [Pkg \<lparr>pkg_fd = ex_b_file, pkg_files = []\<rparr>,
         File \<lparr>file_pkg = 0, file_desc = ex_b_file, file_buildTarget = False,
               file_enums = [], file_msgs = [Suc (Suc 0)], file_srvs = [],
               file_syntaxInfo = None, file_packageInfo = None\<rparr>,
         Msg \<lparr>msg_desc = DescriptorProto ''B'' [] [] [] [] False, msg_parent = Suc 0,
              msg_enums = [], msg_msgs = [], msg_preservedMsgs = [], msg_maps = [],
              msg_oneofs = [], msg_fields = [], msg_info = None\<rparr>]\<rparr>"


subsection \<open>Map entries\<close>



text \<open>The part of an object that says where its nested messages are: its descriptor, the
  ordinary nested messages and the map entries.\<close>

definition nesting :: "obj \<Rightarrow> descriptor \<times> ref list \<times> ref list" where
  "nesting ob =
     (descOf ob,
      (case ob of Msg x \<Rightarrow> msg_msgs x | _ \<Rightarrow> []),
      (case ob of Msg x \<Rightarrow> msg_maps x | _ \<Rightarrow> []))"

text \<open>The ordinary nested messages of a message are messages of the store that are no map
  entries, and its map entries are map entries.\<close>

definition map_inv :: "state \<Rightarrow> bool" where
  "map_inv g \<longleftrightarrow>
     (\<forall>a x. cell (objs g) a = Some (Msg x) \<longrightarrow>
        (\<forall>c \<in> set (msg_msgs x). c < length (objs g) \<and> \<not> IsMapEntry (objs g) c) \<and>
        (\<forall>c \<in> set (msg_maps x). IsMapEntry (objs g) c))"

definition map_step :: "state \<Rightarrow> state \<Rightarrow> bool" where
  "map_step s s' \<longleftrightarrow> (map_inv s \<longrightarrow> map_inv s')"

text \<open>A file whose message \<open>M\<close> declares \<^verbatim>\<open>map<string, int32> foo\<close> and a nested message
  \<open>Inner\<close>: the compiler synthesises the map entry \<open>FooEntry\<close> with the fields \<open>key\<close> and
  \<open>value\<close>. \<open>ex_map_state\<close> is the graph of that file with the given types of \<open>key\<close>,
  \<open>value\<close> and \<open>foo\<close>: none of them when the classification pass starts.\<close>

definition ex_key_field :: FieldDescriptorProto where
  "ex_key_field =
     \<lparr>fdp_name = ''key'', fdp_label = Optional, fdp_type = StringT, fdp_type_name = [],
      fdp_oneof_index = None\<rparr>"

definition ex_value_field :: FieldDescriptorProto where
  "ex_value_field =
     \<lparr>fdp_name = ''value'', fdp_label = Optional, fdp_type = Int32T, fdp_type_name = [],
      fdp_oneof_index = None\<rparr>"

definition ex_foo_field :: FieldDescriptorProto where
  "ex_foo_field =
     \<lparr>fdp_name = ''foo'', fdp_label = Repeated, fdp_type = MessageT,
      fdp_type_name = ''.x.M.FooEntry'', fdp_oneof_index = None\<rparr>"

definition ex_entry_msg :: DescriptorProto where
  "ex_entry_msg = DescriptorProto ''FooEntry'' [ex_key_field, ex_value_field] [] [] [] True"

definition ex_inner_msg :: DescriptorProto where
  "ex_inner_msg = DescriptorProto ''Inner'' [] [] [] [] False"

definition ex_map_msg :: DescriptorProto where
  "ex_map_msg = DescriptorProto ''M'' [ex_foo_field] [ex_entry_msg, ex_inner_msg] [] [] False"

definition ex_map_file :: FileDescriptorProto where
  "ex_map_file =
     \<lparr>fd_name = ''m.proto'', fd_package = ''x'', fd_message_type = [ex_map_msg],
      fd_enum_type = [], fd_service = [], fd_source_code_info = []\<rparr>"

definition ex_map_request :: CodeGeneratorRequest where
  "ex_map_request = \<lparr>file_to_generate = [''m.proto''], proto_file = [ex_map_file]\<rparr>"

definition ex_map_state ::
  "FieldType option \<Rightarrow> FieldType option \<Rightarrow> FieldType option \<Rightarrow> state" where
  "ex_map_state tkey tvalue tfoo =
     \<lparr>targets = [''m.proto'' \<mapsto> Some 1],
      packages = [''x'' \<mapsto> 0],
      entities = [''m.proto'' \<mapsto> 1, ''.x.M'' \<mapsto> 2, ''.x.M.FooEntry'' \<mapsto> 3,
                  ''.x.M.FooEntry.key'' \<mapsto> 4, ''.x.M.FooEntry.value'' \<mapsto> 5,
                  ''.x.M.Inner'' \<mapsto> 6, ''.x.M.foo'' \<mapsto> 7],
      objs =
        [Pkg \<lparr>pkg_fd = ex_map_file, pkg_files = [1]\<rparr>,
         File \<lparr>file_pkg = 0, file_desc = ex_map_file, file_buildTarget = True,
               file_enums = [], file_msgs = [2], file_srvs = [],
               file_syntaxInfo = None, file_packageInfo = None\<rparr>,
         Msg \<lparr>msg_desc = ex_map_msg, msg_parent = 1, msg_enums = [], msg_msgs = [6],
              msg_preservedMsgs = [Some 3, Some 6], msg_maps = [3], msg_oneofs = [],
              msg_fields = [7], msg_info = None\<rparr>,
         Msg \<lparr>msg_desc = ex_entry_msg, msg_parent = 2, msg_enums = [], msg_msgs = [],
              msg_preservedMsgs = [], msg_maps = [], msg_oneofs = [], msg_fields = [4, 5],
              msg_info = None\<rparr>,
         Field \<lparr>field_desc = ex_key_field, field_msg = 3, field_typ = tkey, field_info = None\<rparr>,
         Field \<lparr>field_desc = ex_value_field, field_msg = 3, field_typ = tvalue,
                field_info = None\<rparr>,
         Msg \<lparr>msg_desc = ex_inner_msg, msg_parent = 2, msg_enums = [], msg_msgs = [],
              msg_preservedMsgs = [], msg_maps = [], msg_oneofs = [], msg_fields = [],
              msg_info = None\<rparr>,
         Field \<lparr>field_desc = ex_foo_field, field_msg = 2, field_typ = tfoo, field_info = None\<rparr>]\<rparr>"

definition ex_map_graph :: state where
  "ex_map_graph =
     ex_map_state (Some (scalarT 4)) (Some (scalarT 5))
       (Some (mapT 7 (scalarE StringT) (scalarE Int32T)))"

subsection \<open>Source locations\<close>

text \<open>What the binder is said to do with one location record, as a function on graphs: a
  record whose path is the syntax field number alone becomes the syntax commentary of the
  file, one whose path is the package field number alone becomes its package commentary,
  and any other record is attached to the entity its path leads to from the file, if
  there is one.\<close>

definition withInfo :: "Location \<Rightarrow> obj \<Rightarrow> obj" where
  "withInfo info ob =
     (case ob of
        Pkg x \<Rightarrow> ob
      | File x \<Rightarrow> File (x\<lparr>file_syntaxInfo := Some info\<rparr>)
      | Enum x \<Rightarrow> Enum (x\<lparr>enum_info := Some info\<rparr>)
      | EnumVal x \<Rightarrow> EnumVal (x\<lparr>ev_info := Some info\<rparr>)
      | Service x \<Rightarrow> Service (x\<lparr>srv_info := Some info\<rparr>)
      | Method x \<Rightarrow> Method (x\<lparr>mth_info := Some info\<rparr>)
      | Msg x \<Rightarrow> Msg (x\<lparr>msg_info := Some info\<rparr>)
      | Field x \<Rightarrow> Field (x\<lparr>field_info := Some info\<rparr>)
      | OneOf x \<Rightarrow> OneOf (x\<lparr>oneof_info := Some info\<rparr>))"

definition withPackageInfo :: "Location \<Rightarrow> obj \<Rightarrow> obj" where
  "withPackageInfo info ob =
     (case ob of File x \<Rightarrow> File (x\<lparr>file_packageInfo := Some info\<rparr>) | _ \<Rightarrow> ob)"

definition bindLocation :: "ref \<Rightarrow> state \<Rightarrow> Location \<Rightarrow> state" where
  "bindLocation f s loc =
     (if loc_path loc = [syntaxPath] then
        s\<lparr>objs := (objs s)[f := withInfo loc (objs s ! f)]\<rparr>
      else if loc_path loc = [packagePath] then
        s\<lparr>objs := (objs s)[f := withPackageInfo loc (objs s ! f)]\<rparr>
      else
        (case childAtPath (objs s) f (loc_path loc) of
           None \<Rightarrow> s
         | Some e \<Rightarrow> s\<lparr>objs := (objs s)[e := withInfo loc (objs s ! e)]\<rparr>))"

text \<open>The file \<^verbatim>\<open>a.proto\<close> with three location records, and the graph of the request for
  it with the given package commentary of the file and commentary of the field.\<close>

definition ex_doc_file :: FileDescriptorProto where
  "ex_doc_file =
     \<lparr>fd_name = ''a.proto'', fd_package = ''x'',
      fd_message_type = [DescriptorProto ''A'' [ex_items_field] [] [] [] False],
      fd_enum_type = [], fd_service = [],
      fd_source_code_info = [ex_package_loc, ex_field_loc, ex_other_loc]\<rparr>"

definition ex_doc_request :: CodeGeneratorRequest where
  "ex_doc_request =
     \<lparr>file_to_generate = [''a.proto''], proto_file = [ex_b_file, ex_doc_file]\<rparr>"

definition ex_doc_state :: "Location option \<Rightarrow> Location option \<Rightarrow> state" where
  "ex_doc_state pinfo finfo =
     \<lparr>targets = [''a.proto'' \<mapsto> Some 3],
      packages = [''x'' \<mapsto> 0],
      entities = [''b.proto'' \<mapsto> 1, ''.x.B'' \<mapsto> 2, ''a.proto'' \<mapsto> 3, ''.x.A'' \<mapsto> 4,
                  ''.x.A.items'' \<mapsto> 5],
      objs =
        [Pkg \<lparr>pkg_fd = ex_b_file, pkg_files = [1]\<rparr>,
         File \<lparr>file_pkg = 0, file_desc = ex_b_file, file_buildTarget = False,
               file_enums = [], file_msgs = [2], file_srvs = [],
               file_syntaxInfo = None, file_packageInfo = None\<rparr>,
         Msg \<lparr>msg_desc = DescriptorProto ''B'' [] [] [] [] False, msg_parent = 1,
              msg_enums = [], msg_msgs = [], msg_preservedMsgs = [], msg_maps = [],
              msg_oneofs = [], msg_fields = [], msg_info = None\<rparr>,
         File \<lparr>file_pkg = 0, file_desc = ex_doc_file, file_buildTarget = True,
               file_enums = [], file_msgs = [4], file_srvs = [],
               file_syntaxInfo = None, file_packageInfo = pinfo\<rparr>,
         Msg \<lparr>msg_desc = DescriptorProto ''A'' [ex_items_field] [] [] [] False, msg_parent = 3,
              msg_enums = [], msg_msgs = [], msg_preservedMsgs = [], msg_maps = [],
              msg_oneofs = [], msg_fields = [5], msg_info = None\<rparr>,
         Field \<lparr>field_desc = ex_items_field, field_msg = 4,
                field_typ = Some (repT 5 (embedE MessageT 2)), field_info = finfo\<rparr>]\<rparr>"

definition ex_doc_graph :: state where
  "ex_doc_graph =
     (ex_doc_state (Some ex_package_loc) (Some ex_field_loc))
       \<lparr>objs := (objs (ex_doc_state (Some ex_package_loc) (Some ex_field_loc)))
          [0 := Pkg \<lparr>pkg_fd = ex_b_file, pkg_files = [1, 3]\<rparr>]\<rparr>"

text \<open>A file in which the message \<open>A\<close>, declared before \<open>M\<close>, has a repeated field whose
  type is the map entry \<open>FooEntry\<close> of \<open>M\<close>.\<close>

definition ex_far_field :: FieldDescriptorProto where
  "ex_far_field =
     \<lparr>fdp_name = ''far'', fdp_label = Repeated, fdp_type = MessageT,
      fdp_type_name = ''.x.M.FooEntry'', fdp_oneof_index = None\<rparr>"

definition ex_far_file :: FileDescriptorProto where
  "ex_far_file =
     \<lparr>fd_name = ''f.proto'', fd_package = ''x'',
      fd_message_type = [DescriptorProto ''A'' [ex_far_field] [] [] [] False, ex_map_msg],
      fd_enum_type = [], fd_service = [], fd_source_code_info = []\<rparr>"

definition ex_far_request :: CodeGeneratorRequest where
  "ex_far_request = \<lparr>file_to_generate = [''f.proto''], proto_file = [ex_far_file]\<rparr>"

text \<open>A file whose message \<open>G\<close> has a map entry \<open>E\<close> in which a message \<open>N\<close> is nested, and
  \<open>N\<close> has a field of the group type; and the graph of the request for that file.\<close>

definition ex_deep_file :: FileDescriptorProto where
  "ex_deep_file =
     \<lparr>fd_name = ''d.proto'', fd_package = ''x'',
      fd_message_type =
        [DescriptorProto ''G'' []
           [DescriptorProto ''E'' []
              [DescriptorProto ''N'' [ex_group_field] [] [] [] False] [] [] True] [] [] False],
      fd_enum_type = [], fd_service = [], fd_source_code_info = []\<rparr>"

definition ex_deep_request :: CodeGeneratorRequest where
  "ex_deep_request = \<lparr>file_to_generate = [''d.proto''], proto_file = [ex_deep_file]\<rparr>"

definition ex_deep_graph :: state where
  "ex_deep_graph =
     \<lparr>targets = [''d.proto'' \<mapsto> Some 1],
      packages = [''x'' \<mapsto> 0],
      entities = [''d.proto'' \<mapsto> 1, ''.x.G'' \<mapsto> 2, ''.x.G.E'' \<mapsto> 3, ''.x.G.E.N'' \<mapsto> 4,
                  ''.x.G.E.N.old'' \<mapsto> 5],
      objs =
        [Pkg \<lparr>pkg_fd = ex_deep_file, pkg_files = [1]\<rparr>,
         File \<lparr>file_pkg = 0, file_desc = ex_deep_file, file_buildTarget = True,
               file_enums = [], file_msgs = [2], file_srvs = [],
               file_syntaxInfo = None, file_packageInfo = None\<rparr>,
         Msg \<lparr>msg_desc = DescriptorProto ''G'' []
                  [DescriptorProto ''E'' []
                     [DescriptorProto ''N'' [ex_group_field] [] [] [] False] [] [] True]
                  [] [] False,
              msg_parent = 1, msg_enums = [], msg_msgs = [], msg_preservedMsgs = [Some 3],
              msg_maps = [3], msg_oneofs = [], msg_fields = [], msg_info = None\<rparr>,
         Msg \<lparr>msg_desc = DescriptorProto ''E'' []
                  [DescriptorProto ''N'' [ex_group_field] [] [] [] False] [] [] True,
              msg_parent = 2, msg_enums = [], msg_msgs = [4], msg_preservedMsgs = [Some 4],
              msg_maps = [], msg_oneofs = [], msg_fields = [], msg_info = None\<rparr>,
         Msg \<lparr>msg_desc = DescriptorProto ''N'' [ex_group_field] [] [] [] False,
              msg_parent = 3, msg_enums = [], msg_msgs = [], msg_preservedMsgs = [],
              msg_maps = [], msg_oneofs = [], msg_fields = [5], msg_info = None\<rparr>,
         Field \<lparr>field_desc = ex_group_field, field_msg = 4, field_typ = None,
                field_info = None\<rparr>]\<rparr>"

subsection \<open>Cross-references\<close>

text \<open>\<open>enumNamed h n r\<close>, \<open>msgNamed h n r\<close>: the pointer \<open>r\<close> is to an enum (a message) of
  the store whose resolved FQN is \<open>n\<close>. \<open>linked h ob\<close>: the type of a field \<open>ob\<close>, when it
  points to an enum or a message, points to the one named by the type name of the field;
  the input and the output of a method \<open>ob\<close>, once set, point to the messages named by its
  descriptor.\<close>

definition enumNamed :: "obj list \<Rightarrow> string \<Rightarrow> ref \<Rightarrow> bool" where
  "enumNamed h n r \<longleftrightarrow> (\<exists>x. cell h r = Some (Enum x)) \<and> resolveFQN h r = n"

definition msgNamed :: "obj list \<Rightarrow> string \<Rightarrow> ref \<Rightarrow> bool" where
  "msgNamed h n r \<longleftrightarrow> (\<exists>x. cell h r = Some (Msg x)) \<and> resolveFQN h r = n"

definition linkedElem :: "obj list \<Rightarrow> string \<Rightarrow> FieldTypeElem \<Rightarrow> bool" where
  "linkedElem h n el =
     (case el of scalarE p \<Rightarrow> True | enumE p e \<Rightarrow> enumNamed h n e | embedE p m \<Rightarrow> msgNamed h n m)"

definition linkedType :: "obj list \<Rightarrow> string \<Rightarrow> FieldType \<Rightarrow> bool" where
  "linkedType h n t =
     (case t of
        scalarT f \<Rightarrow> True
      | enumT f e \<Rightarrow> enumNamed h n e
      | embedT f m \<Rightarrow> msgNamed h n m
      | repT f el \<Rightarrow> linkedElem h n el
      | mapT f k el \<Rightarrow> True)"

definition linked :: "obj list \<Rightarrow> obj \<Rightarrow> bool" where
  "linked h ob =
     (case ob of
        Field x \<Rightarrow> (\<forall>t. field_typ x = Some t \<longrightarrow> linkedType h (fdp_type_name (field_desc x)) t)
      | Method x \<Rightarrow>
          (\<forall>i. mth_in x = Some i \<longrightarrow> msgNamed h (md_input_type (mth_desc x)) i) \<and>
          (\<forall>out. mth_out x = Some out \<longrightarrow> msgNamed h (md_output_type (mth_desc x)) out)
      | _ \<Rightarrow> True)"

definition xref_inv :: "state \<Rightarrow> bool" where
  "xref_inv g \<longleftrightarrow> (\<forall>r<length (objs g). linked (objs g) (objs g ! r))"

definition xref_step :: "state \<Rightarrow> state \<Rightarrow> bool" where
  "xref_step s s' \<longleftrightarrow> fqn_step s s' \<and> (registry_inv s \<longrightarrow> xref_inv s \<longrightarrow> xref_inv s')"

text \<open>The file \<^verbatim>\<open>c.proto\<close>, processed after \<^verbatim>\<open>b.proto\<close>: its message \<open>C\<close> has a field of the
  message type \<open>.x.B\<close> declared in \<^verbatim>\<open>b.proto\<close> and a field of its own enum type \<open>.x.K\<close>, and
  its service \<open>S\<close> has a method from \<open>B\<close> to \<open>C\<close>.\<close>

definition ex_ref_field :: FieldDescriptorProto where
  "ex_ref_field =
     \<lparr>fdp_name = ''b'', fdp_label = Optional, fdp_type = MessageT,
      fdp_type_name = ''.x.B'', fdp_oneof_index = None\<rparr>"

definition ex_kind_field :: FieldDescriptorProto where
  "ex_kind_field =
     \<lparr>fdp_name = ''k'', fdp_label = Optional, fdp_type = EnumT,
      fdp_type_name = ''.x.K'', fdp_oneof_index = None\<rparr>"

definition ex_call_method :: MethodDescriptorProto where
  "ex_call_method = \<lparr>md_name = ''Call'', md_input_type = ''.x.B'', md_output_type = ''.x.C''\<rparr>"

definition ex_c_file :: FileDescriptorProto where
  "ex_c_file =
     \<lparr>fd_name = ''c.proto'', fd_package = ''x'',
      fd_message_type = [DescriptorProto ''C'' [ex_ref_field, ex_kind_field] [] [] [] False],
      fd_enum_type = [\<lparr>ed_name = ''K'', ed_value = []\<rparr>],
      fd_service = [\<lparr>sd_name = ''S'', sd_method = [ex_call_method]\<rparr>],
      fd_source_code_info = []\<rparr>"

definition ex_bc_request :: CodeGeneratorRequest where
  "ex_bc_request = \<lparr>file_to_generate = [''c.proto''], proto_file = [ex_b_file, ex_c_file]\<rparr>"

definition ex_bc_graph :: state where
  "ex_bc_graph =
     \<lparr>targets = [''c.proto'' \<mapsto> Some 3],
      packages = [''x'' \<mapsto> 0],
      entities = [''b.proto'' \<mapsto> 1, ''.x.B'' \<mapsto> 2, ''c.proto'' \<mapsto> 3, ''.x.K'' \<mapsto> 4,
                  ''.x.C'' \<mapsto> 5, ''.x.C.b'' \<mapsto> 6, ''.x.C.k'' \<mapsto> 7, ''.x.S'' \<mapsto> 8,
                  ''.x.S.Call'' \<mapsto> 9],
      objs =
        [Pkg \<lparr>pkg_fd = ex_b_file, pkg_files = [1, 3]\<rparr>,
         File \<lparr>file_pkg = 0, file_desc = ex_b_file, file_buildTarget = False,
               file_enums = [], file_msgs = [2], file_srvs = [],
               file_syntaxInfo = None, file_packageInfo = None\<rparr>,
         Msg \<lparr>msg_desc = DescriptorProto ''B'' [] [] [] [] False, msg_parent = 1,
              msg_enums = [], msg_msgs = [], msg_preservedMsgs = [], msg_maps = [],
              msg_oneofs = [], msg_fields = [], msg_info = None\<rparr>,
         File \<lparr>file_pkg = 0, file_desc = ex_c_file, file_buildTarget = True,
               file_enums = [4], file_msgs = [5], file_srvs = [8],
               file_syntaxInfo = None, file_packageInfo = None\<rparr>,
         Enum \<lparr>enum_desc = \<lparr>ed_name = ''K'', ed_value = []\<rparr>, enum_parent = 3,
               enum_vals = [], enum_info = None\<rparr>,
         Msg \<lparr>msg_desc = DescriptorProto ''C'' [ex_ref_field, ex_kind_field] [] [] [] False,
              msg_parent = 3, msg_enums = [], msg_msgs = [], msg_preservedMsgs = [],
              msg_maps = [], msg_oneofs = [], msg_fields = [6, 7], msg_info = None\<rparr>,
         Field \<lparr>field_desc = ex_ref_field, field_msg = 5,
                field_typ = Some (embedT 6 2), field_info = None\<rparr>,
         Field \<lparr>field_desc = ex_kind_field, field_msg = 5,
                field_typ = Some (enumT 7 4), field_info = None\<rparr>,
         Service \<lparr>srv_desc = \<lparr>sd_name = ''S'', sd_method = [ex_call_method]\<rparr>, srv_file = 3,
                  srv_methods = [9], srv_info = None\<rparr>,
         Method \<lparr>mth_desc = ex_call_method, mth_service = 8, mth_in = Some 2,
                 mth_out = Some 5, mth_info = None\<rparr>]\<rparr>"
section \<open>Reasoning about the state-passing functions\<close>


lemma bind_Inr: "bind m f s = Inr (y, s'') \<longleftrightarrow> (\<exists>x s'. m s = Inr (x, s') \<and> f x s' = Inr (y, s''))"
  by (auto simp: bind_def split: sum.splits)
lemma return_Inr: "return x s = Inr (y, s') \<longleftrightarrow> y = x \<and> s' = s"
  by (auto simp: return_def)
lemma gets_Inr: "gets f s = Inr (y, s') \<longleftrightarrow> y = f s \<and> s' = s"
  by (auto simp: gets_def)
lemma modify_Inr: "modify f s = Inr (y, s') \<longleftrightarrow> s' = f s"
  by (auto simp: modify_def)
lemma lift_Inr: "lift f s = Inr (y, s') \<longleftrightarrow> f s = Inr y \<and> s' = s"
  by (auto simp: lift_def split: sum.splits)
lemma alloc_Inr: "alloc ob s = Inr (r, s') \<longleftrightarrow> r = length (objs s) \<and> s' = s\<lparr>objs := objs s @ [ob]\<rparr>"
  by (auto simp: alloc_def)
lemma update_Inr: "update r f s = Inr (y, s') \<longleftrightarrow> s' = s\<lparr>objs := (objs s)[r := f (objs s ! r)]\<rparr>"
  by (auto simp: update_def modify_def)

subsection \<open>Relations kept by every step\<close>

lemma keeps_return: "reflp R \<Longrightarrow> keeps R (return x)"
  by (auto simp: keeps_def return_def reflp_def)
lemma keeps_gets: "reflp R \<Longrightarrow> keeps R (gets f)"
  by (auto simp: keeps_def gets_def reflp_def)
lemma keeps_lift: "reflp R \<Longrightarrow> keeps R (lift f)"
  by (auto simp: keeps_def lift_Inr reflp_def)
lemma keeps_throw: "keeps R (throw e)"
  by (auto simp: keeps_def throw_def)
lemma keeps_bind: "transp R \<Longrightarrow> keeps R m \<Longrightarrow> (\<And>x. keeps R (f x)) \<Longrightarrow> keeps R (bind m f)"
  unfolding keeps_def bind_Inr by (blast dest: transpD)
lemma keeps_forRange:
  "reflp R \<Longrightarrow> transp R \<Longrightarrow> (\<And>x. keeps R (body x)) \<Longrightarrow> keeps R (forRange xs body)"
  by (induction xs) (auto intro: keeps_return keeps_bind)
lemma keeps_if: "keeps R a \<Longrightarrow> keeps R b \<Longrightarrow> keeps R (if c then a else b)"
  by simp
lemma keeps_case_option:
  "keeps R a \<Longrightarrow> (\<And>x. keeps R (b x)) \<Longrightarrow> keeps R (case v of None \<Rightarrow> a | Some x \<Rightarrow> b x)"
  by (cases v) auto

subsection \<open>Views of the store\<close>

lemma extv_refl: "extv v h h"
  by (simp add: extv_def)
lemma extv_trans: "extv v h1 h2 \<Longrightarrow> extv v h2 h3 \<Longrightarrow> extv v h1 h3"
  by (auto simp: extv_def)
lemma extv_append: "extv v h (h @ [ob])"
  by (auto simp: extv_def nth_append)
lemma extv_update: "(\<And>ob. v (f ob) = v ob) \<Longrightarrow> extv v h (h[r := f (h ! r)])"
  unfolding extv_def by (simp, metis nth_list_update_eq nth_list_update_neq)

lemma descOf_Name: "descOf a = descOf b \<Longrightarrow> Name a = Name b"
  by (cases a; cases b) (simp_all add: descOf_def Name_def)
lemma descOf_packageOf: "descOf a = descOf b \<Longrightarrow> packageOf a = packageOf b"
  by (cases a; cases b) (simp_all add: descOf_def packageOf_def)
lemma descOf_isEntity: "descOf a = descOf b \<Longrightarrow> isEntity a = isEntity b"
  by (cases a; cases b) (simp_all add: descOf_def isEntity_def)
lemma descOf_File: "descOf a = descOf b \<Longrightarrow> (\<exists>x. a = File x) = (\<exists>x. b = File x)"
  by (cases a; cases b) (simp_all add: descOf_def)

lemma cell_Some: "cell h r = Some ob \<longleftrightarrow> r < length h \<and> h ! r = ob"
  by (auto simp: cell_def)
lemma cell_None: "cell h r = None \<longleftrightarrow> length h \<le> r"
  by (auto simp: cell_def)

lemma FQN_alt:
  "FullyQualifiedName h r =
     (if r < length h then
        (case parentOf (h ! r) of
           None \<Rightarrow> ''.'' @ packageOf (h ! r)
         | Some p \<Rightarrow> (if p < r then FullyQualifiedName h p else []) @ ''.'' @ Name (h ! r))
      else [])"
  by (subst FullyQualifiedName.simps) (simp add: cell_def)

lemma FQN_ext:
  "extv ident h h' \<Longrightarrow> r < length h \<Longrightarrow> FullyQualifiedName h' r = FullyQualifiedName h r"
proof (induction r rule: less_induct)
  case (less r)
  have id: "descOf (h' ! r) = descOf (h ! r)" "parentOf (h' ! r) = parentOf (h ! r)"
    and r': "r < length h'"
    using less.prems by (auto simp: extv_def ident_def)
  have rec: "\<And>p. p < r \<Longrightarrow> FullyQualifiedName h' p = FullyQualifiedName h p"
    using less by simp
  show ?case
    using less.prems(2) r' id(2) descOf_Name[OF id(1)] descOf_packageOf[OF id(1)] rec
    by (subst (1 2) FQN_alt) (simp split: option.splits)
qed

lemma resolveFQN_alt:
  "resolveFQN h r = (if r < length h \<and> (\<exists>x. h ! r = File x) then Name (h ! r) else FullyQualifiedName h r)"
  by (auto simp: resolveFQN_def cell_def split: obj.splits)

lemma resolveFQN_ext:
  "extv ident h h' \<Longrightarrow> r < length h \<Longrightarrow> resolveFQN h' r = resolveFQN h r"
proof -
  assume e: "extv ident h h'" and r: "r < length h"
  have id: "descOf (h' ! r) = descOf (h ! r)" and r': "r < length h'"
    using e r by (auto simp: extv_def ident_def)
  show ?thesis
    using r r' descOf_Name[OF id] descOf_File[OF id] FQN_ext[OF e r]
    by (simp add: resolveFQN_alt)
qed


subsection \<open>The registry invariant\<close>

lemma extv_descOf:
  "extv ident h h' \<Longrightarrow> r < length h \<Longrightarrow> descOf (h' ! r) = descOf (h ! r)"
  by (simp add: extv_def ident_def)

lemma isEntity_ext:
  "extv ident h h' \<Longrightarrow> r < length h \<Longrightarrow> isEntity (h' ! r) = isEntity (h ! r)"
  by (rule descOf_isEntity) (rule extv_descOf)

lemma registry_inv_view:
  assumes "entities s' = entities s" "length (objs s') = length (objs s)"
    "extv ident (objs s) (objs s')" "registry_inv s"
  shows "registry_inv s'"
  using assms unfolding registry_inv_def
  by (simp add: resolveFQN_ext isEntity_ext)

lemma fqn_step_refl: "reflp fqn_step"
  by (simp add: reflp_def fqn_step_def extv_refl)

lemma fqn_trans: "fqn_step a b \<Longrightarrow> fqn_step b c \<Longrightarrow> fqn_step a c"
  by (auto simp: fqn_step_def intro: extv_trans)

lemma fqn_step_trans: "transp fqn_step"
  by (rule transpI) (rule fqn_trans)

lemma fqn_update:
  "(\<And>ob. ident (f ob) = ident ob) \<Longrightarrow> keeps fqn_step (update r f)"
  unfolding keeps_def fqn_step_def update_Inr
  by (auto intro!: extv_update registry_inv_view[where s'="s\<lparr>objs := (objs s)[r := f (objs s ! r)]\<rparr>" and s=s for s])

lemma fqn_modify:
  "(\<And>g. objs (f g) = objs g \<and> entities (f g) = entities g) \<Longrightarrow> keeps fqn_step (modify f)"
  unfolding keeps_def fqn_step_def modify_Inr
  by (auto simp: extv_refl intro: registry_inv_view)

lemma registry_inv_alloc:
  assumes "registry_inv s" "\<not> isEntity ob"
  shows "registry_inv (s\<lparr>objs := objs s @ [ob]\<rparr>)"
  using assms unfolding registry_inv_def
  by (auto simp: nth_append resolveFQN_ext[OF extv_append] less_Suc_eq)

lemma fqn_alloc: "\<not> isEntity ob \<Longrightarrow> keeps fqn_step (alloc ob)"
  unfolding keeps_def fqn_step_def alloc_Inr
  by (auto simp: extv_append registry_inv_alloc)

lemma registry_inv_new:
  assumes "registry_inv s" "isEntity ob"
  shows "registry_inv (s\<lparr>objs := objs s @ [ob],
            entities := (entities s)(resolveFQN (objs s @ [ob]) (length (objs s)) \<mapsto> length (objs s))\<rparr>)"
  using assms unfolding registry_inv_def
  by (auto simp: nth_append resolveFQN_ext[OF extv_append] less_Suc_eq)

lemma add_Inr: "add e s = Inr (y, s') \<longleftrightarrow> s' = s\<lparr>entities := (entities s)(resolveFQN (objs s) e \<mapsto> e)\<rparr>"
  by (simp add: add_def modify_Inr)

lemma fqn_new:
  assumes "isEntity ob" "\<And>r. keeps fqn_step (k r)"
  shows "keeps fqn_step (bind (alloc ob) (\<lambda>r. bind (add r) (\<lambda>_. k r)))"
proof -
  have "fqn_step s (s\<lparr>objs := objs s @ [ob],
            entities := (entities s)(resolveFQN (objs s @ [ob]) (length (objs s)) \<mapsto> length (objs s))\<rparr>)" for s
    using assms(1) by (simp add: fqn_step_def extv_append registry_inv_new)
  then show ?thesis
    using assms(2) unfolding keeps_def bind_Inr alloc_Inr add_Inr
    by (fastforce intro: fqn_trans)
qed

lemmas fqn_rules =
  keeps_return[OF fqn_step_refl] keeps_gets[OF fqn_step_refl] keeps_lift[OF fqn_step_refl]
  keeps_throw keeps_bind[OF fqn_step_trans] keeps_forRange[OF fqn_step_refl fqn_step_trans]
  keeps_if keeps_case_option

lemmas updater_defs = pkg_addFile_def file_addEnum_def file_addMessage_def file_addService_def
  addValue_def addMethod_def msg_addEnum_def msg_addMessage_def addMapEntry_def addOneOf_def
  msg_addField_def oneof_addField_def addType_def addSourceCodeInfo_def
  addPackageSourceCodeInfo_def method_setIn_def method_setOut_def msg_makePreservedMsgs_def
  msg_setPreservedMsg_def file_setBuildTarget_def

lemma fqn_updaters:
  "keeps fqn_step (pkg_addFile p f)"
  "keeps fqn_step (file_addEnum fl e)"
  "keeps fqn_step (file_addMessage fl m)"
  "keeps fqn_step (file_addService fl sv)"
  "keeps fqn_step (addValue e v)"
  "keeps fqn_step (addMethod sv m)"
  "keeps fqn_step (msg_addEnum m e)"
  "keeps fqn_step (msg_addMessage m nm)"
  "keeps fqn_step (addMapEntry m nm)"
  "keeps fqn_step (addOneOf m o1)"
  "keeps fqn_step (msg_addField m f)"
  "keeps fqn_step (oneof_addField o1 f)"
  "keeps fqn_step (addType f t)"
  "keeps fqn_step (addSourceCodeInfo e info)"
  "keeps fqn_step (addPackageSourceCodeInfo fl info)"
  "keeps fqn_step (method_setIn m i)"
  "keeps fqn_step (method_setOut m i)"
  "keeps fqn_step (msg_makePreservedMsgs m n)"
  "keeps fqn_step (msg_setPreservedMsg m n nm)"
  "keeps fqn_step (file_setBuildTarget fl b)"
  unfolding updater_defs
  by (rule fqn_update, case_tac ob, simp_all add: ident_def descOf_def parentOf_def)+

lemma fqn_hydrateEnumValue: "keeps fqn_step (hydrateEnumValue e vd)"
  unfolding hydrateEnumValue_def
  by (rule fqn_new) (simp_all add: isEntity_def fqn_rules)

lemma fqn_hydrateEnum: "keeps fqn_step (hydrateEnum p ed)"
  unfolding hydrateEnum_def
  by (rule fqn_new) (auto simp: isEntity_def intro!: fqn_rules fqn_updaters fqn_hydrateEnumValue)

lemma fqn_hydrateMethod: "keeps fqn_step (hydrateMethod sv md)"
  unfolding hydrateMethod_def
  by (rule fqn_new) (auto simp: isEntity_def intro!: fqn_rules fqn_updaters)

lemma fqn_hydrateService: "keeps fqn_step (hydrateService f sd)"
  unfolding hydrateService_def
  by (rule fqn_new) (auto simp: isEntity_def intro!: fqn_rules fqn_updaters fqn_hydrateMethod)

lemma fqn_hydrateField: "keeps fqn_step (hydrateField m fd)"
  unfolding hydrateField_def
  by (rule fqn_new) (auto simp: isEntity_def intro!: fqn_rules)

lemma fqn_hydrateOneOf: "keeps fqn_step (hydrateOneOf m od)"
  unfolding hydrateOneOf_def
  by (rule fqn_new) (auto simp: isEntity_def intro!: fqn_rules)

lemma fqn_hydrateMessage:
  "keeps fqn_step (hydrateMessage p md)"
  "keeps fqn_step (hydrateNestedTypes m i mds)"
proof (induction p md and m i mds rule: hydrateMessage_hydrateNestedTypes.induct)
  case (1 p nm flds nested enums oneofs map_entry)
  show ?case
    unfolding hydrateMessage.simps
    by (rule fqn_new)
       (auto simp: isEntity_def intro!: fqn_rules fqn_updaters fqn_hydrateEnum fqn_hydrateOneOf
          fqn_hydrateField "1.IH")
next
  case (2 m i)
  show ?case by (simp add: fqn_rules)
next
  case (3 m i nmd rest)
  show ?case
    unfolding hydrateNestedTypes.simps addNested_def
    by (auto intro!: fqn_rules fqn_updaters "3.IH")
qed


lemma fqn_hydrateSourceCodeInfo: "keeps fqn_step (hydrateSourceCodeInfo f fd)"
  unfolding hydrateSourceCodeInfo_def hydrateLocation_def attachToChild_def Let_def
  by (auto intro!: fqn_rules fqn_updaters)

lemma fqn_classifyFields: "keeps fqn_step (classifyFields m)"
  unfolding classifyFields_def classifyField_def
  by (auto intro!: fqn_rules fqn_updaters)

lemma fqn_classifyMessage: "keeps fqn_step (classifyMessage m)"
  unfolding classifyMessage_def
  by (auto intro!: fqn_rules fqn_classifyFields)

lemma fqn_hydrateFile: "keeps fqn_step (hydrateFile pk f)"
  unfolding hydrateFile_def hydrateFileBody_def
  by (rule fqn_new)
     (auto simp: isEntity_def intro!: fqn_rules fqn_updaters fqn_modify fqn_hydrateEnum
        fqn_hydrateMessage fqn_hydrateService fqn_classifyMessage fqn_hydrateSourceCodeInfo)

lemma fqn_hydratePackage: "keeps fqn_step (hydratePackage f)"
  unfolding hydratePackage_def Let_def
  by (auto simp: isEntity_def intro!: fqn_rules fqn_alloc fqn_modify)

lemma fqn_processFile: "keeps fqn_step (processFile f)"
  unfolding processFile_def
  by (auto intro!: fqn_rules fqn_updaters fqn_hydratePackage fqn_hydrateFile)

lemma registry_inv_newGraph: "registry_inv newGraph"
  by (simp add: registry_inv_def newGraph_def)

lemma ProcessDescriptors_Inr:
  "ProcessDescriptors req = Inr g \<longleftrightarrow>
     (\<exists>u. bind (forRange (file_to_generate req) (\<lambda>f.
                   modify (\<lambda>g. g\<lparr>targets := (targets g)(f \<mapsto> None)\<rparr>))) (\<lambda>_.
           forRange (proto_file req) processFile) newGraph = Inr (u, g))"
  by (auto simp: ProcessDescriptors_def split: sum.splits)

lemma registry_inv_ProcessDescriptors:
  assumes "ProcessDescriptors req = Inr g"
  shows "registry_inv g"
proof -
  have "keeps fqn_step (bind (forRange (file_to_generate req) (\<lambda>f.
                   modify (\<lambda>g. g\<lparr>targets := (targets g)(f \<mapsto> None)\<rparr>))) (\<lambda>_.
           forRange (proto_file req) processFile))"
    by (auto intro!: fqn_rules fqn_modify fqn_processFile)
  then have "fqn_step newGraph g"
    using assms unfolding ProcessDescriptors_Inr keeps_def by blast
  then show ?thesis
    by (simp add: fqn_step_def registry_inv_newGraph)
qed

lemma hydrated_iff: "r \<in> set (hydrated h) \<longleftrightarrow> r < length h \<and> isEntity (h ! r)"
  by (auto simp: hydrated_def)

subsection \<open>What \<open>hydrateMessage\<close> returns\<close>

lemma descOf_MsgD: "descOf ob = MsgD d \<longleftrightarrow> (\<exists>x. ob = Msg x \<and> msg_desc x = d)"
  by (cases ob) (auto simp: descOf_def)

lemma new_entity_result:
  assumes k: "\<And>r. keeps fqn_step (k r)"
    and ret: "\<And>r s x s'. k r s = Inr (x, s') \<Longrightarrow> x = r"
    and run: "bind (alloc ob) (\<lambda>r. bind (add r) (\<lambda>_. k r)) s = Inr (x, s')"
  shows "x = length (objs s) \<and> x < length (objs s') \<and> descOf (objs s' ! x) = descOf ob"
proof -
  let ?s2 = "s\<lparr>objs := objs s @ [ob],
      entities := (entities s)(resolveFQN (objs s @ [ob]) (length (objs s)) \<mapsto> length (objs s))\<rparr>"
  have r: "k (length (objs s)) ?s2 = Inr (x, s')"
    using run unfolding bind_Inr alloc_Inr add_Inr by auto
  then have x: "x = length (objs s)" by (rule ret)
  have "fqn_step ?s2 s'"
    using k r unfolding keeps_def by blast
  then have e: "extv ident (objs s @ [ob]) (objs s')"
    by (simp add: fqn_step_def)
  then have "x < length (objs s')" "descOf (objs s' ! x) = descOf ((objs s @ [ob]) ! x)"
    unfolding x by (auto simp: extv_def ident_def)
  then show ?thesis by (simp add: x)
qed

lemma yieldsMsg_hydrateMessage: "yieldsMsg (hydrateMessage p md)"
  unfolding yieldsMsg_def
proof (intro allI impI)
  fix s x s' assume h: "hydrateMessage p md s = Inr (x, s')"
  obtain nm flds nested enums oneofs me where md: "md = DescriptorProto nm flds nested enums oneofs me"
    by (cases md)
  let ?ob = "Msg \<lparr>msg_desc = md, msg_parent = p, msg_enums = [],
          msg_msgs = [], msg_preservedMsgs = [], msg_maps = [], msg_oneofs = [],
          msg_fields = [], msg_info = None\<rparr>"
  have d: "descOf ?ob = MsgD md"
    by (simp add: descOf_def)
  have "x = length (objs s) \<and> x < length (objs s') \<and> descOf (objs s' ! x) = descOf ?ob"
    using h unfolding md hydrateMessage.simps
    by (rule new_entity_result[rotated 2])
       (auto simp: bind_Inr return_Inr
          intro!: fqn_rules fqn_updaters fqn_hydrateEnum fqn_hydrateOneOf fqn_hydrateField
            fqn_hydrateMessage split: option.splits)
  then show "x < length (objs s') \<and> (\<exists>y. objs s' ! x = Msg y)"
    unfolding d by (auto simp: descOf_MsgD)
qed

subsection \<open>Relations kept by the hydration of a file\<close>

lemma traversableD:
  assumes "traversable R"
  shows "keeps R (return x)" "keeps R (gets f)" "keeps R (lift g)"
    "keeps R m \<Longrightarrow> (\<And>x. keeps R (h x)) \<Longrightarrow> keeps R (bind m h)"
    "(\<And>x. keeps R (body x)) \<Longrightarrow> keeps R (forRange xs body)"
    "keeps R (addValue a b)" "keeps R (addMethod a b)" "keeps R (msg_addEnum a b)"
    "keeps R (msg_makePreservedMsgs a n)" "keeps R (msg_setPreservedMsg a n b)"
    "keeps R (addOneOf a b)" "keeps R (msg_addField a b)" "keeps R (oneof_addField a b)"
    "keeps R (file_addEnum a b)" "keeps R (file_addMessage a b)" "keeps R (file_addService a b)"
    "keeps R (hydrateMethod sv md)" "keeps R (classifyField a)"
    "keeps R (addSourceCodeInfo a info)" "keeps R (addPackageSourceCodeInfo a info)"
proof -
  have rt: "reflp R" "transp R" using assms by (simp_all add: traversable_def)
  show "keeps R (return x)" "keeps R (gets f)" "keeps R (lift g)"
    by (rule keeps_return[OF rt(1)] keeps_gets[OF rt(1)] keeps_lift[OF rt(1)])+
  show "keeps R m \<Longrightarrow> (\<And>x. keeps R (h x)) \<Longrightarrow> keeps R (bind m h)"
    by (rule keeps_bind[OF rt(2)])
  show "(\<And>x. keeps R (body x)) \<Longrightarrow> keeps R (forRange xs body)"
    by (rule keeps_forRange[OF rt])
  have st: "\<And>u. structural u \<Longrightarrow> keeps R u"
    using assms by (simp add: traversable_def)
  show "keeps R (addValue a b)" "keeps R (addMethod a b)" "keeps R (msg_addEnum a b)"
    "keeps R (msg_makePreservedMsgs a n)" "keeps R (msg_setPreservedMsg a n b)"
    "keeps R (addOneOf a b)" "keeps R (msg_addField a b)" "keeps R (oneof_addField a b)"
    "keeps R (file_addEnum a b)" "keeps R (file_addMessage a b)" "keeps R (file_addService a b)"
    by (rule st, rule structural.intros)+
  show "keeps R (hydrateMethod sv md)" "keeps R (classifyField a)"
    "keeps R (addSourceCodeInfo a info)" "keeps R (addPackageSourceCodeInfo a info)"
    using assms by (simp_all add: traversable_def)
qed

lemma traversable_nested:
  fixes k :: "ref \<Rightarrow> unit M"
  assumes "traversable R" "keeps R hm" "yieldsMsg hm" "\<And>nm. keeps R (k nm)"
  shows "keeps R (bind hm (\<lambda>nm. bind (addNested m nm) (\<lambda>_. k nm)))"
  using assms unfolding traversable_def by blast

lemma traversable_new:
  fixes k :: "ref \<Rightarrow> ref M"
  assumes "traversable R" "isEntity ob" "fresh ob" "\<And>r. keeps R (k r)"
  shows "keeps R (bind (alloc ob) (\<lambda>r. bind (add r) (\<lambda>_. k r)))"
  using assms unfolding traversable_def by blast

lemma trav_hydrateEnumValue: "traversable R \<Longrightarrow> keeps R (hydrateEnumValue e vd)"
  unfolding hydrateEnumValue_def
  by (rule traversable_new) (simp_all add: isEntity_def fresh_def traversableD)

lemma trav_hydrateEnum: "traversable R \<Longrightarrow> keeps R (hydrateEnum p ed)"
  unfolding hydrateEnum_def
  by (rule traversable_new)
     (auto simp: isEntity_def fresh_def intro!: traversableD trav_hydrateEnumValue)

lemma trav_hydrateService: "traversable R \<Longrightarrow> keeps R (hydrateService f sd)"
  unfolding hydrateService_def
  by (rule traversable_new) (auto simp: isEntity_def fresh_def intro!: traversableD)

lemma trav_hydrateField: "traversable R \<Longrightarrow> keeps R (hydrateField m fd)"
  unfolding hydrateField_def
  by (rule traversable_new) (auto simp: isEntity_def fresh_def intro!: traversableD)

lemma trav_hydrateOneOf: "traversable R \<Longrightarrow> keeps R (hydrateOneOf m od)"
  unfolding hydrateOneOf_def
  by (rule traversable_new) (auto simp: isEntity_def fresh_def intro!: traversableD)

lemma trav_hydrateMessage:
  assumes t: "traversable R"
  shows "keeps R (hydrateMessage p md)" and "keeps R (hydrateNestedTypes m i mds)"
proof (induction p md and m i mds rule: hydrateMessage_hydrateNestedTypes.induct)
  case (1 p nm flds nested enums oneofs map_entry)
  show ?case
    unfolding hydrateMessage.simps
    by (rule traversable_new[OF t])
       (auto simp: isEntity_def fresh_def
          intro!: traversableD[OF t] trav_hydrateEnum[OF t] trav_hydrateOneOf[OF t]
            trav_hydrateField[OF t] "1.IH" split: option.splits)
next
  case (2 m i)
  show ?case by (simp add: traversableD[OF t])
next
  case (3 m i nmd rest)
  show ?case
    unfolding hydrateNestedTypes.simps
    by (rule traversable_nested[OF t "3.IH"(1) yieldsMsg_hydrateMessage])
       (auto intro!: traversableD[OF t] "3.IH")
qed

lemma trav_classifyMessage: "traversable R \<Longrightarrow> keeps R (classifyMessage m)"
  unfolding classifyMessage_def classifyFields_def
  by (auto intro!: traversableD)

lemma trav_hydrateSourceCodeInfo: "traversable R \<Longrightarrow> keeps R (hydrateSourceCodeInfo f fd)"
  unfolding hydrateSourceCodeInfo_def hydrateLocation_def attachToChild_def Let_def
  by (auto intro!: traversableD split: option.splits)

lemma trav_hydrateFileBody: "traversable R \<Longrightarrow> keeps R (hydrateFileBody fl f)"
  unfolding hydrateFileBody_def
  by (auto intro!: traversableD trav_hydrateEnum trav_hydrateMessage trav_hydrateService
        trav_classifyMessage trav_hydrateSourceCodeInfo)

lemma traversable_topD:
  assumes "traversable_top R"
  shows "traversable R" "keeps R (file_setBuildTarget fl b)"
    "(\<And>g. objs (f g) = objs g \<and> entities (f g) = entities g) \<Longrightarrow> keeps R (modify f)"
    "keeps R (alloc (Pkg \<lparr>pkg_fd = fd, pkg_files = []\<rparr>))" "keeps R (pkg_addFile p fl)"
  using assms unfolding traversable_top_def by blast+

lemma trav_hydrateFile:
  assumes t: "traversable_top R"
  shows "keeps R (hydrateFile pk f)"
  unfolding hydrateFile_def
  by (rule traversable_new[OF traversable_topD(1)[OF t]])
     (auto simp: isEntity_def fresh_def
        intro!: traversableD[OF traversable_topD(1)[OF t]] traversable_topD(2,3)[OF t]
          trav_hydrateFileBody[OF traversable_topD(1)[OF t]] keeps_if)

lemma trav_hydratePackage:
  assumes t: "traversable_top R"
  shows "keeps R (hydratePackage f)"
  unfolding hydratePackage_def Let_def
  by (auto intro!: traversableD[OF traversable_topD(1)[OF t]] traversable_topD(3,4)[OF t]
        split: option.splits)

lemma trav_processFile:
  assumes t: "traversable_top R"
  shows "keeps R (processFile f)"
  unfolding processFile_def
  by (intro traversableD(4)[OF traversable_topD(1)[OF t]] trav_hydratePackage[OF t]
        trav_hydrateFile[OF t] traversable_topD(5)[OF t])

lemma trav_ProcessDescriptors:
  assumes t: "traversable_top R" and run: "ProcessDescriptors req = Inr g"
  shows "R newGraph g"
proof -
  have "keeps R (bind (forRange (file_to_generate req) (\<lambda>f.
                   modify (\<lambda>g. g\<lparr>targets := (targets g)(f \<mapsto> None)\<rparr>))) (\<lambda>_.
           forRange (proto_file req) processFile))"
    by (auto intro!: traversableD[OF traversable_topD(1)[OF t]] traversable_topD(3)[OF t]
          trav_processFile[OF t])
  then show ?thesis
    using run unfolding ProcessDescriptors_Inr keeps_def by blast
qed

subsection \<open>What the hydration of a file leaves alone\<close>


lemma core_step_refl: "reflp core_step"
  by (simp add: reflp_def core_step_def extv_refl)

lemma core_trans: "core_step a b \<Longrightarrow> core_step b c \<Longrightarrow> core_step a c"
  by (auto simp: core_step_def intro: extv_trans)

lemma core_step_trans: "transp core_step"
  by (rule transpI) (rule core_trans)

lemma core_update: "(\<And>ob. core (f ob) = core ob) \<Longrightarrow> keeps core_step (update r f)"
  unfolding keeps_def core_step_def update_Inr
  by (auto intro!: extv_update)

lemma core_alloc: "keeps core_step (alloc ob)"
  unfolding keeps_def core_step_def alloc_Inr
  by (auto simp: extv_append)

lemma core_add: "keeps core_step (add r)"
  unfolding keeps_def core_step_def add_Inr
  by (auto simp: extv_refl)

lemmas core_rules =
  keeps_return[OF core_step_refl] keeps_gets[OF core_step_refl] keeps_lift[OF core_step_refl]
  keeps_throw keeps_bind[OF core_step_trans] keeps_forRange[OF core_step_refl core_step_trans]
  keeps_if keeps_case_option core_alloc core_add

lemma core_updaters:
  "keeps core_step (file_addEnum fl e)"
  "keeps core_step (file_addMessage fl m)"
  "keeps core_step (file_addService fl sv)"
  "keeps core_step (addValue e v)"
  "keeps core_step (addMethod sv m)"
  "keeps core_step (msg_addEnum m e)"
  "keeps core_step (msg_addMessage m nm)"
  "keeps core_step (addMapEntry m nm)"
  "keeps core_step (addOneOf m o1)"
  "keeps core_step (msg_addField m f)"
  "keeps core_step (oneof_addField o1 f)"
  "keeps core_step (addType f t)"
  "keeps core_step (addSourceCodeInfo e info)"
  "keeps core_step (addPackageSourceCodeInfo fl info)"
  "keeps core_step (method_setIn m i)"
  "keeps core_step (method_setOut m i)"
  "keeps core_step (msg_makePreservedMsgs m n)"
  "keeps core_step (msg_setPreservedMsg m n nm)"
  unfolding updater_defs
  by (rule core_update, case_tac ob,
      simp_all add: core_def descOf_def parentOf_def fileBits_def pkgFiles_def)+

lemma traversable_core: "traversable core_step"
  unfolding traversable_def
proof (intro conjI allI impI)
  show "reflp core_step" "transp core_step"
    by (rule core_step_refl core_step_trans)+
  show "keeps core_step u" if "structural u" for u
    using that by cases (simp_all add: core_updaters)
  show "keeps core_step (hydrateMethod sv md)" for sv md
    unfolding hydrateMethod_def by (intro core_rules core_updaters)
  show "keeps core_step (bind hm (\<lambda>nm. bind (addNested m nm) (\<lambda>_. k nm)))"
    if "keeps core_step hm" "\<forall>nm. keeps core_step (k nm)"
    for m hm and k :: "ref \<Rightarrow> unit M"
    unfolding addNested_def using that by (intro core_rules core_updaters) auto
  show "keeps core_step (classifyField f)" for f
    unfolding classifyField_def by (intro core_rules core_updaters)
  show "keeps core_step (addSourceCodeInfo e info)"
    "keeps core_step (addPackageSourceCodeInfo e info)" for e info
    by (rule core_updaters)+
  show "keeps core_step (bind (alloc ob) (\<lambda>r. bind (add r) (\<lambda>_. k r)))"
    if "\<forall>r. keeps core_step (k r)" for ob and k :: "ref \<Rightarrow> ref M"
    using that by (intro core_rules) simp
qed

lemma core_hydrateFileBody: "keeps core_step (hydrateFileBody fl f)"
  by (rule trav_hydrateFileBody[OF traversable_core])

lemma descOf_FileD: "descOf ob = FileD f \<longleftrightarrow> (\<exists>x. ob = File x \<and> file_desc x = f)"
  by (cases ob) (auto simp: descOf_def)

lemma descOf_PkgD: "descOf ob = PkgD f \<longleftrightarrow> (\<exists>x. ob = Pkg x \<and> pkg_fd x = f)"
  by (cases ob) (auto simp: descOf_def)

lemma hydrateFile_spec:
  assumes "hydrateFile pk f s = Inr (fl, s')"
  shows "fl = length (objs s)" and "fl < length (objs s')"
    and "extv core (objs s) (objs s')"
    and "packages s' = packages s"
    and "targets s' = (if targets s (fd_name f) \<noteq> None
                        then (targets s)(fd_name f \<mapsto> Some fl) else targets s)"
    and "core (objs s' ! fl) = (FileD f, None, Some (pk, targets s (fd_name f) \<noteq> None), [])"
proof -
  let ?F = "File \<lparr>file_pkg = pk, file_desc = f, file_buildTarget = False,
                        file_enums = [], file_msgs = [], file_srvs = [],
                        file_syntaxInfo = None, file_packageInfo = None\<rparr>"
  let ?b = "targets s (fd_name f) \<noteq> None"
  let ?h = "(objs s @ [?F])[length (objs s) := File \<lparr>file_pkg = pk, file_desc = f, file_buildTarget = ?b,
                        file_enums = [], file_msgs = [], file_srvs = [],
                        file_syntaxInfo = None, file_packageInfo = None\<rparr>]"
  obtain s4 where fl: "fl = length (objs s)" and body: "hydrateFileBody fl f s4 = Inr ((), s')"
    and h4: "objs s4 = ?h" and p4: "packages s4 = packages s"
    and t4: "targets s4 = (if ?b then (targets s)(fd_name f \<mapsto> Some fl) else targets s)"
    using assms
    unfolding hydrateFile_def bind_Inr alloc_Inr add_Inr gets_Inr file_setBuildTarget_def
      update_Inr return_Inr
    by (auto simp: modify_Inr return_Inr split: if_splits)
  have cs: "core_step s4 s'"
    using core_hydrateFileBody body unfolding keeps_def by blast
  show "fl = length (objs s)" by (rule fl)
  have e4: "extv core (objs s) (objs s4)"
    unfolding h4 by (auto simp: extv_def nth_append)
  show "extv core (objs s) (objs s')"
    using e4 cs by (auto simp: core_step_def intro: extv_trans)
  show "packages s' = packages s" "targets s' = (if ?b then (targets s)(fd_name f \<mapsto> Some fl) else targets s)"
    using cs p4 t4 by (auto simp: core_step_def)
  have l4: "fl < length (objs s4)" unfolding h4 fl by simp
  then show "fl < length (objs s')"
    using cs by (auto simp: core_step_def extv_def)
  have "core (objs s4 ! fl) = (FileD f, None, Some (pk, ?b), [])"
    unfolding h4 fl by (simp add: core_def descOf_def parentOf_def fileBits_def pkgFiles_def)
  then show "core (objs s' ! fl) = (FileD f, None, Some (pk, ?b), [])"
    using cs l4 by (auto simp: core_step_def extv_def)
qed

subsection \<open>The loop over the files\<close>


lemma hydratePackage_spec:
  assumes "hydratePackage f s = Inr (pk, s')"
  shows "(packages s (fd_package f) = Some pk \<and> s' = s) \<or>
         (packages s (fd_package f) = None \<and> pk = length (objs s) \<and>
          s' = s\<lparr>objs := objs s @ [Pkg \<lparr>pkg_fd = f, pkg_files = []\<rparr>],
                 packages := (packages s)(fd_package f \<mapsto> pk)\<rparr>)"
  using assms unfolding hydratePackage_def Let_def bind_Inr gets_Inr
  by (auto simp: return_Inr bind_Inr alloc_Inr modify_Inr split: option.splits)

lemma nth_list_update_read:
  "j < length xs \<Longrightarrow> xs[i := x] ! j = (if i = j then x else xs ! j)"
  by (auto simp: nth_list_update)

lemma top_step_refl: "top_step s s"
  by (simp add: top_step_def extv_refl)

lemma top_step_trans: "top_step a b \<Longrightarrow> top_step b c \<Longrightarrow> top_step a c"
  unfolding top_step_def
  by (auto intro: extv_trans simp: extv_def subset_iff)

lemma core_top_step: "extv core (objs s) (objs s') \<Longrightarrow> top_step s s'"
  by (auto simp: top_step_def extv_def core_def)

lemma pkg_addFile_spec:
  assumes "pkg_addFile pk fl s = Inr (u, s')"
  shows "top_step s s'" and "packages s' = packages s" and "targets s' = targets s"
    and "length (objs s') = length (objs s)"
    and "pk < length (objs s) \<Longrightarrow> descOf (objs s ! pk) = PkgD fd
          \<Longrightarrow> fl \<in> set (pkgFiles (objs s' ! pk))"
proof -
  let ?f = "\<lambda>ob. case ob of Pkg x \<Rightarrow> Pkg (x\<lparr>pkg_files := pkg_files x @ [fl]\<rparr>) | _ \<Rightarrow> ob"
  have s': "s' = s\<lparr>objs := (objs s)[pk := ?f (objs s ! pk)]\<rparr>"
    using assms by (simp add: pkg_addFile_def update_Inr)
  have v: "descOf (?f ob) = descOf ob" "fileBits (?f ob) = fileBits ob"
    "set (pkgFiles ob) \<subseteq> set (pkgFiles (?f ob))" for ob
    by (cases ob; auto simp: descOf_def fileBits_def pkgFiles_def)+
  show "top_step s s'"
    unfolding top_step_def s' extv_def using v
    by (auto simp: nth_list_update_read)
  show "packages s' = packages s" "targets s' = targets s" "length (objs s') = length (objs s)"
    by (simp_all add: s')
  show "fl \<in> set (pkgFiles (objs s' ! pk))"
    if "pk < length (objs s)" "descOf (objs s ! pk) = PkgD fd"
    using that unfolding s' by (auto simp: descOf_PkgD pkgFiles_def)
qed

lemma processFile_spec:
  assumes "processFile f s = Inr (u, s')"
  obtains pk fl where
    "top_step s s'"
    "packages s' = (packages s)(fd_package f \<mapsto> pk)"
    "packages s (fd_package f) = None \<or> packages s (fd_package f) = Some pk"
    "packages s (fd_package f) = None \<longrightarrow> pk = length (objs s)"
    "packages s (fd_package f) = None \<longrightarrow> descOf (objs s' ! pk) = PkgD f"
    "packages s (fd_package f) = None \<or> (pk < length (objs s) \<and> (\<exists>fd. descOf (objs s ! pk) = PkgD fd))
        \<longrightarrow> fl \<in> set (pkgFiles (objs s' ! pk))"
    "length (objs s) \<le> fl" "fl < length (objs s')"
    "descOf (objs s' ! fl) = FileD f"
    "fileBits (objs s' ! fl) = Some (pk, targets s (fd_name f) \<noteq> None)"
    "targets s' = (if targets s (fd_name f) \<noteq> None
                   then (targets s)(fd_name f \<mapsto> Some fl) else targets s)"
proof -
  obtain pk s1 fl s2 where
    hp: "hydratePackage f s = Inr (pk, s1)" and hf: "hydrateFile pk f s1 = Inr (fl, s2)"
    and af: "pkg_addFile pk fl s2 = Inr (u, s')"
    using assms unfolding processFile_def bind_Inr by auto
  note F = hydrateFile_spec[OF hf]
  note A = pkg_addFile_spec[OF af]
  have t1: "targets s1 = targets s" and p1: "packages s1 = (packages s)(fd_package f \<mapsto> pk)"
    and e1: "extv core (objs s) (objs s1)"
    and c1: "packages s (fd_package f) = None \<or> packages s (fd_package f) = Some pk"
    and n1: "packages s (fd_package f) = None \<Longrightarrow> pk = length (objs s) \<and> pk < length (objs s1) \<and> descOf (objs s1 ! pk) = PkgD f"
    and o1: "packages s (fd_package f) \<noteq> None \<Longrightarrow> objs s1 = objs s"
    using hydratePackage_spec[OF hp]
    by (auto simp: extv_refl extv_append descOf_def)
  have e2: "extv core (objs s) (objs s2)"
    using e1 F(3) by (rule extv_trans)
  have ts: "top_step s s'"
    using core_top_step[OF e2] A(1) by (rule top_step_trans)
  have d2: "r < length (objs s2) \<Longrightarrow> descOf (objs s' ! r) = descOf (objs s2 ! r)
        \<and> fileBits (objs s' ! r) = fileBits (objs s2 ! r)" for r
    using A(1) by (auto simp: top_step_def extv_def)
  have pkD: "pk < length (objs s1) \<Longrightarrow> descOf (objs s1 ! pk) = PkgD fd
      \<Longrightarrow> pk < length (objs s2) \<and> descOf (objs s2 ! pk) = PkgD fd" for fd
    using F(3) by (auto simp: extv_def core_def)
  have lens: "length (objs s) \<le> length (objs s1)" "length (objs s1) < length (objs s2)"
    "length (objs s') = length (objs s2)"
    using e1 F(1,2) A(4) by (auto simp: extv_def)
  show ?thesis
  proof (rule that[of pk fl])
    show "top_step s s'" by (rule ts)
    show "packages s' = (packages s)(fd_package f \<mapsto> pk)"
      using A(2) F(4) p1 by simp
    show "packages s (fd_package f) = None \<or> packages s (fd_package f) = Some pk" by (rule c1)
    show "packages s (fd_package f) = None \<longrightarrow> pk = length (objs s)"
      using n1 by simp
    show "packages s (fd_package f) = None \<longrightarrow> descOf (objs s' ! pk) = PkgD f"
      using n1 pkD d2 by auto
    show "length (objs s) \<le> fl" "fl < length (objs s')"
      using lens F(1,2) by auto
    show "descOf (objs s' ! fl) = FileD f"
      "fileBits (objs s' ! fl) = Some (pk, targets s (fd_name f) \<noteq> None)"
      using d2[of fl] F(2,6) t1 by (auto simp: core_def)
    show "targets s' = (if targets s (fd_name f) \<noteq> None
                   then (targets s)(fd_name f \<mapsto> Some fl) else targets s)"
      using A(3) F(5) t1 by simp
    show "packages s (fd_package f) = None \<or> (pk < length (objs s) \<and> (\<exists>fd. descOf (objs s ! pk) = PkgD fd))
        \<longrightarrow> fl \<in> set (pkgFiles (objs s' ! pk))"
    proof
      assume a: "packages s (fd_package f) = None \<or> (pk < length (objs s) \<and> (\<exists>fd. descOf (objs s ! pk) = PkgD fd))"
      have "\<exists>fd. pk < length (objs s1) \<and> descOf (objs s1 ! pk) = PkgD fd"
        using a n1 e1 lens by (auto simp: extv_def core_def)
      then show "fl \<in> set (pkgFiles (objs s' ! pk))" using pkD A(5) by blast
    qed
  qed
qed


lemma tgt_inv_step:
  assumes "tgt_inv names seen s" and "processFile f s = Inr (u, s')"
  shows "tgt_inv names (seen @ [f]) s'"
proof (rule processFile_spec[OF assms(2)])
  fix pk fl
  assume ts: "top_step s s'"
    and p': "packages s' = (packages s)(fd_package f \<mapsto> pk)"
    and c: "packages s (fd_package f) = None \<or> packages s (fd_package f) = Some pk"
    and new: "packages s (fd_package f) = None \<longrightarrow> pk = length (objs s)"
      "packages s (fd_package f) = None \<longrightarrow> descOf (objs s' ! pk) = PkgD f"
    and add: "packages s (fd_package f) = None \<or> (pk < length (objs s) \<and> (\<exists>fd. descOf (objs s ! pk) = PkgD fd))
        \<longrightarrow> fl \<in> set (pkgFiles (objs s' ! pk))"
    and fl0: "length (objs s) \<le> fl"
    and fl: "fl < length (objs s')" "descOf (objs s' ! fl) = FileD f"
      "fileBits (objs s' ! fl) = Some (pk, targets s (fd_name f) \<noteq> None)"
    and t': "targets s' = (if targets s (fd_name f) \<noteq> None
                   then (targets s)(fd_name f \<mapsto> Some fl) else targets s)"
  have dom: "targets s n \<noteq> None \<longleftrightarrow> n \<in> set names" for n
    using assms(1) by (simp add: tgt_inv_def)
  have old: "r < length (objs s) \<Longrightarrow> r < length (objs s') \<and> descOf (objs s' ! r) = descOf (objs s ! r)
      \<and> fileBits (objs s' ! r) = fileBits (objs s ! r)" for r
    using ts by (auto simp: top_step_def extv_def)
  show "tgt_inv names (seen @ [f]) s'"
    unfolding tgt_inv_def
  proof (intro conjI allI ballI)
    show "targets s' n \<noteq> None \<longleftrightarrow> n \<in> set names" for n
      using dom[of n] dom[of "fd_name f"] by (auto simp: t')
    fix n assume n: "n \<in> set names"
    show "case filter (\<lambda>fd. fd_name fd = n) (seen @ [f]) of
          [] \<Rightarrow> targets s' n = Some None
        | fd # fds \<Rightarrow>
            (\<exists>fl pk. targets s' n = Some (Some fl) \<and> fl < length (objs s') \<and>
               descOf (objs s' ! fl) = FileD (last (fd # fds)) \<and>
               fileBits (objs s' ! fl) = Some (pk, True))"
    proof (cases "fd_name f = n")
      case True
      then have "targets s (fd_name f) \<noteq> None" using dom n by simp
      moreover have "filter (\<lambda>fd. fd_name fd = n) (seen @ [f]) = filter (\<lambda>fd. fd_name fd = n) seen @ [f]"
        using True by simp
      ultimately show ?thesis
        using fl True t' by (cases "filter (\<lambda>fd. fd_name fd = n) seen") auto
    next
      case False
      then have eq: "filter (\<lambda>fd. fd_name fd = n) (seen @ [f]) = filter (\<lambda>fd. fd_name fd = n) seen"
        and tn: "targets s' n = targets s n"
        by (auto simp: t')
      have "case filter (\<lambda>fd. fd_name fd = n) seen of
          [] \<Rightarrow> targets s n = Some None
        | fd # fds \<Rightarrow>
            (\<exists>fl pk. targets s n = Some (Some fl) \<and> fl < length (objs s) \<and>
               descOf (objs s ! fl) = FileD (last (fd # fds)) \<and>
               fileBits (objs s ! fl) = Some (pk, True))"
        using assms(1) n by (simp add: tgt_inv_def)
      then show ?thesis
        unfolding eq tn using old by (auto split: list.splits)
    qed
  qed
qed

lemma tgt_inv_loop:
  assumes "forRange fs processFile s = Inr (u, s')" and "tgt_inv names seen s"
  shows "tgt_inv names (seen @ fs) s'"
  using assms
proof (induction fs arbitrary: s seen)
  case Nil
  then show ?case by (simp add: return_Inr)
next
  case (Cons f fs)
  then obtain s1 where "processFile f s = Inr ((), s1)" "forRange fs processFile s1 = Inr (u, s')"
    by (auto simp: bind_Inr)
  then show ?case
    using Cons.IH[of s1 "seen @ [f]"] tgt_inv_step[OF Cons.prems(2)] by simp
qed

lemma pkg_inv_step:
  assumes "pkg_inv seen s" and "processFile f s = Inr (u, s')"
  shows "pkg_inv (seen @ [f]) s'"
proof (rule processFile_spec[OF assms(2)])
  fix pk fl
  assume ts: "top_step s s'"
    and p': "packages s' = (packages s)(fd_package f \<mapsto> pk)"
    and c: "packages s (fd_package f) = None \<or> packages s (fd_package f) = Some pk"
    and new: "packages s (fd_package f) = None \<longrightarrow> pk = length (objs s)"
      "packages s (fd_package f) = None \<longrightarrow> descOf (objs s' ! pk) = PkgD f"
    and add: "packages s (fd_package f) = None \<or> (pk < length (objs s) \<and> (\<exists>fd. descOf (objs s ! pk) = PkgD fd))
        \<longrightarrow> fl \<in> set (pkgFiles (objs s' ! pk))"
    and fl0: "length (objs s) \<le> fl"
    and fl: "fl < length (objs s')" "descOf (objs s' ! fl) = FileD f"
      "fileBits (objs s' ! fl) = Some (pk, targets s (fd_name f) \<noteq> None)"
    and t': "targets s' = (if targets s (fd_name f) \<noteq> None
                   then (targets s)(fd_name f \<mapsto> Some fl) else targets s)"
  have old: "r < length (objs s) \<Longrightarrow> r < length (objs s') \<and> descOf (objs s' ! r) = descOf (objs s ! r)
      \<and> fileBits (objs s' ! r) = fileBits (objs s ! r)
      \<and> set (pkgFiles (objs s ! r)) \<subseteq> set (pkgFiles (objs s' ! r))" for r
    using ts by (auto simp: top_step_def extv_def)
  have I1: "packages s k \<noteq> None \<longleftrightarrow> k \<in> fd_package ` set seen" for k
    using assms(1) by (simp add: pkg_inv_def)
  have I2: "packages s k = Some p \<Longrightarrow> p < length (objs s) \<and> (\<exists>fd. descOf (objs s ! p) = PkgD fd)" for k p
    using assms(1) by (simp add: pkg_inv_def)
  have I3: "fd \<in> set seen \<Longrightarrow> \<exists>p fl b.
        packages s (fd_package fd) = Some p \<and> fl \<in> set (pkgFiles (objs s ! p)) \<and>
        fl < length (objs s) \<and> descOf (objs s ! fl) = FileD fd \<and>
        fileBits (objs s ! fl) = Some (p, b)" for fd
    using assms(1) by (simp add: pkg_inv_def)
  have same: "packages s' k = packages s k" if "packages s k \<noteq> None" for k
    using that c by (auto simp: p')
  have addf: "fl \<in> set (pkgFiles (objs s' ! pk))"
    using add c I2 by blast
  have pkv: "pk < length (objs s')"
    using c new(1) I2[of "fd_package f" pk] old[of pk] fl0 fl(1) by auto
  show "pkg_inv (seen @ [f]) s'"
    unfolding pkg_inv_def
  proof (intro conjI allI ballI impI)
    show "packages s' k \<noteq> None \<longleftrightarrow> k \<in> fd_package ` set (seen @ [f])" for k
      using I1[of k] by (auto simp: p')
    show "p < length (objs s')" if "packages s' k = Some p" for k p
      using that I2[of k p] old[of p] pkv by (auto simp: p' split: if_splits)
    show "\<exists>fd. descOf (objs s' ! p) = PkgD fd" if "packages s' k = Some p" for k p
      using that I2[of k p] I2[of "fd_package f" pk] old[of p] c new
      by (auto simp: p' split: if_splits)
    fix fd assume "fd \<in> set (seen @ [f])"
    then consider "fd = f" | "fd \<in> set seen" by auto
    then show "\<exists>p fl b.
        packages s' (fd_package fd) = Some p \<and> fl \<in> set (pkgFiles (objs s' ! p)) \<and>
        fl < length (objs s') \<and> descOf (objs s' ! fl) = FileD fd \<and>
        fileBits (objs s' ! fl) = Some (p, b)"
    proof cases
      case 1
      then show ?thesis using addf fl by (auto simp: p')
    next
      case 2
      from I3[OF 2] obtain p fl0 b where
        *: "packages s (fd_package fd) = Some p" "fl0 \<in> set (pkgFiles (objs s ! p))"
        "fl0 < length (objs s)" "descOf (objs s ! fl0) = FileD fd"
        "fileBits (objs s ! fl0) = Some (p, b)" by blast
      have "packages s' (fd_package fd) = Some p"
        using same[of "fd_package fd"] * by simp
      moreover have "fl0 \<in> set (pkgFiles (objs s' ! p))"
        using old[of p] I2[OF *(1)] *(2) by auto
      ultimately show ?thesis
        using old[of fl0] * by auto
    qed
  qed
qed

lemma pkg_inv_loop:
  assumes "forRange fs processFile s = Inr (u, s')" and "pkg_inv seen s"
  shows "pkg_inv (seen @ fs) s'"
  using assms
proof (induction fs arbitrary: s seen)
  case Nil
  then show ?case by (simp add: return_Inr)
next
  case (Cons f fs)
  then obtain s1 where "processFile f s = Inr ((), s1)" "forRange fs processFile s1 = Inr (u, s')"
    by (auto simp: bind_Inr)
  then show ?case
    using Cons.IH[of s1 "seen @ [f]"] pkg_inv_step[OF Cons.prems(2)] by simp
qed

lemma targets_init:
  assumes "forRange names (\<lambda>f. modify (\<lambda>g. g\<lparr>targets := (targets g)(f \<mapsto> None)\<rparr>)) s = Inr (u, s')"
  shows "objs s' = objs s" "packages s' = packages s" "entities s' = entities s"
    "targets s' n = (if n \<in> set names then Some None else targets s n)"
  using assms
  by (induction names arbitrary: s; auto simp: return_Inr bind_Inr modify_Inr)+

lemma ProcessDescriptors_invs:
  assumes "ProcessDescriptors req = Inr g"
  shows "tgt_inv (file_to_generate req) (proto_file req) g" and "pkg_inv (proto_file req) g"
proof -
  obtain u s0 where i: "forRange (file_to_generate req) (\<lambda>f.
                   modify (\<lambda>g. g\<lparr>targets := (targets g)(f \<mapsto> None)\<rparr>)) newGraph = Inr ((), s0)"
    and l: "forRange (proto_file req) processFile s0 = Inr (u, g)"
    using assms unfolding ProcessDescriptors_Inr bind_Inr by auto
  note T = targets_init[OF i]
  have "tgt_inv (file_to_generate req) [] s0"
    unfolding tgt_inv_def using T(4) by (auto simp: newGraph_def)
  from tgt_inv_loop[OF l this] show "tgt_inv (file_to_generate req) (proto_file req) g" by simp
  have "pkg_inv [] s0"
    unfolding pkg_inv_def using T(2) by (auto simp: newGraph_def)
  from pkg_inv_loop[OF l this] show "pkg_inv (proto_file req) g" by simp
qed



subsection \<open>The classification pass leaves the shape of the graph alone\<close>

lemma shape_nth:
  assumes "map shape h' = map shape h"
  shows "length h' = length h" and "i < length h \<Longrightarrow> shape (h' ! i) = shape (h ! i)"
proof -
  show l: "length h' = length h" using assms by (rule map_eq_imp_length_eq)
  show "shape (h' ! i) = shape (h ! i)" if "i < length h"
    using assms that l by (metis nth_map)
qed

lemma Fields_shape: "Fields h m = (if m < length h then fst (snd (snd (shape (h ! m)))) else [])"
  by (cases "h ! m") (auto simp: Fields_def cell_def shape_def)

lemma MapEntries_shape:
  "MapEntries h m = (if m < length h then snd (snd (snd (shape (h ! m)))) else [])"
  by (cases "h ! m") (auto simp: MapEntries_def cell_def shape_def)

lemma Descriptor_shape:
  "Descriptor h f =
     (case (if f < length h then fst (shape (h ! f)) else PkgD undefined) of
        FieldD d \<Rightarrow> d
      | _ \<Rightarrow> \<lparr>fdp_name = [], fdp_label = Optional, fdp_type = DoubleT, fdp_type_name = [],
               fdp_oneof_index = None\<rparr>)"
  by (cases "h ! f") (auto simp: Descriptor_def cell_def shape_def descOf_def)

lemma shape_frame:
  assumes "map shape h' = map shape h"
  shows "Fields h' m = Fields h m" "MapEntries h' m = MapEntries h m"
    "Descriptor h' f = Descriptor h f" "groupField h' f = groupField h f"
    "visitsGroup h' m = visitsGroup h m"
proof -
  note n = shape_nth[OF assms]
  show a: "Fields h' m = Fields h m" for m
    using n by (simp add: Fields_shape)
  show b: "MapEntries h' m = MapEntries h m"
    using n by (simp add: MapEntries_shape)
  show "Descriptor h' f = Descriptor h f"
    using n unfolding Descriptor_shape by simp
  then show c: "groupField h' f = groupField h f" for f
    using n unfolding groupField_def Descriptor_shape by simp
  show "visitsGroup h' m = visitsGroup h m"
    unfolding visitsGroup_def a b c ..
qed

lemma msg_AllMessages_alt:
  "msg_AllMessages h m =
     (if m < length h \<and> (\<exists>d. fst (shape (h ! m)) = MsgD d) then
        fst (snd (shape (h ! m))) @
        concat (map (\<lambda>c. if m < c \<and> c < length h then msg_AllMessages h c else [])
                    (fst (snd (shape (h ! m)))))
      else [])"
  by (subst msg_AllMessages.simps, cases "h ! m")
     (auto simp: shape_def descOf_def cell_def)

lemma msg_AllMessages_shape:
  assumes "map shape h' = map shape h"
  shows "msg_AllMessages h' m = msg_AllMessages h m"
proof (induction "length h - m" arbitrary: m rule: less_induct)
  case less
  note n = shape_nth[OF assms]
  have rec: "(if m < c \<and> c < length h then msg_AllMessages h' c else [])
           = (if m < c \<and> c < length h then msg_AllMessages h c else [])" for c
    using less[of c] by auto
  show ?case
  proof (cases "m < length h")
    case True
    then have eq: "shape (h' ! m) = shape (h ! m)" by (rule n(2))
    show ?thesis
      by (subst (1 2) msg_AllMessages_alt) (auto simp: eq n(1) rec)
  next
    case False
    show ?thesis
      by (subst (1 2) msg_AllMessages_alt) (simp add: n(1) False)
  qed
qed

lemma AllMessages_shape:
  assumes "map shape h' = map shape h"
  shows "AllMessages h' fl = AllMessages h fl"
proof -
  note n = shape_nth[OF assms]
  have alt: "AllMessages h fl =
     (if fl < length h \<and> (\<exists>d. fst (shape (h ! fl)) = FileD d) then
        fst (snd (shape (h ! fl))) @ concat (map (msg_AllMessages h) (fst (snd (shape (h ! fl)))))
      else [])" for h
    by (cases "h ! fl") (auto simp: AllMessages_def shape_def descOf_def cell_def)
  have fe: "msg_AllMessages h' = msg_AllMessages h"
    by (rule ext) (rule msg_AllMessages_shape[OF assms])
  show ?thesis
  proof (cases "fl < length h")
    case True
    then have eq: "shape (h' ! fl) = shape (h ! fl)" by (rule n(2))
    show ?thesis
      unfolding alt[of h'] alt[of h] by (auto simp: eq n(1) fe)
  next
    case False
    show ?thesis
      unfolding alt[of h'] alt[of h] by (simp add: n(1) False)
  qed
qed

lemma pass_step_refl: "reflp pass_step"
  by (simp add: reflp_def pass_step_def)

lemma pass_trans: "pass_step a b \<Longrightarrow> pass_step b c \<Longrightarrow> pass_step a c"
  unfolding pass_step_def by (auto dest: map_eq_imp_length_eq)

lemma pass_step_trans: "transp pass_step"
  by (rule transpI) (rule pass_trans)

lemma map_update_view:
  "(\<And>ob. v (f ob) = v ob) \<Longrightarrow> map v (h[r := f (h ! r)]) = map v h"
  by (cases "r < length h") (simp_all add: map_update list_update_same_conv list_update_beyond)

lemma pass_update:
  assumes "\<And>ob. shape (f ob) = shape ob" "\<And>ob. typed ob \<Longrightarrow> typed (f ob)"
  shows "keeps pass_step (update r f)"
  unfolding keeps_def pass_step_def update_Inr
  using assms by (auto simp: map_update_view nth_list_update_read)

lemmas pass_rules =
  keeps_return[OF pass_step_refl] keeps_gets[OF pass_step_refl] keeps_lift[OF pass_step_refl]
  keeps_throw keeps_bind[OF pass_step_trans] keeps_forRange[OF pass_step_refl pass_step_trans]
  keeps_if keeps_case_option

lemma pass_updaters:
  "keeps pass_step (addType f t)"
  "keeps pass_step (addSourceCodeInfo e info)"
  "keeps pass_step (addPackageSourceCodeInfo fl info)"
  unfolding updater_defs
  by (rule pass_update; case_tac ob; simp add: shape_def descOf_def typed_def)+

lemma pass_classifyField: "keeps pass_step (classifyField f)"
  unfolding classifyField_def by (intro pass_rules pass_updaters)

lemma pass_classifyFields: "keeps pass_step (classifyFields m)"
  unfolding classifyFields_def by (intro pass_rules pass_classifyField)

lemma pass_classifyMessage: "keeps pass_step (classifyMessage m)"
  unfolding classifyMessage_def by (intro pass_rules pass_classifyFields)

lemma pass_hydrateSourceCodeInfo: "keeps pass_step (hydrateSourceCodeInfo f fd)"
  unfolding hydrateSourceCodeInfo_def hydrateLocation_def attachToChild_def Let_def
  by (auto intro!: pass_rules pass_updaters split: option.splits)

lemma pass_stepD:
  assumes "pass_step s s'"
  shows "Fields (objs s') m = Fields (objs s) m" "MapEntries (objs s') m = MapEntries (objs s) m"
    "Descriptor (objs s') f = Descriptor (objs s) f" "groupField (objs s') f = groupField (objs s) f"
    "visitsGroup (objs s') m = visitsGroup (objs s) m"
    "AllMessages (objs s') fl = AllMessages (objs s) fl"
  using assms shape_frame[of "objs s'" "objs s"] AllMessages_shape[of "objs s'" "objs s"]
  by (simp_all add: pass_step_def)

subsection \<open>A group field stops the pass\<close>

lemma hydrateFieldType_group:
  "groupField (objs g) f \<Longrightarrow>
     hydrateFieldType g f
       = Inl (Fail ''group types are deprecated and unsupported. Use an embedded message instead.'')"
  by (simp add: hydrateFieldType_def groupField_def ProtoType_def)

lemma classifyField_Inr:
  assumes "classifyField f s = Inr (u, s')"
  shows "pass_step s s'" and "\<not> groupField (objs s) f"
proof -
  show "pass_step s s'"
    using pass_classifyField assms unfolding keeps_def by blast
  show "\<not> groupField (objs s) f"
    using assms hydrateFieldType_group[of s f]
    by (auto simp: classifyField_def bind_Inr lift_Inr)
qed

lemma forRange_classifyField_Inr:
  assumes "forRange fs classifyField s = Inr (u, s')"
  shows "pass_step s s' \<and> (\<forall>f \<in> set fs. \<not> groupField (objs s) f)"
  using assms
proof (induction fs arbitrary: s)
  case Nil
  then show ?case by (simp add: return_Inr reflpD[OF pass_step_refl])
next
  case (Cons f fs)
  then obtain s1 where 1: "classifyField f s = Inr ((), s1)"
    and 2: "forRange fs classifyField s1 = Inr (u, s')"
    by (auto simp: bind_Inr)
  note a = classifyField_Inr[OF 1] and b = Cons.IH[OF 2]
  show ?case
    using a b pass_stepD(4)[OF a(1)] by (auto intro: pass_trans)
qed

lemma classifyFields_Inr:
  assumes "classifyFields m s = Inr (u, s')"
  shows "pass_step s s' \<and> (\<forall>f \<in> set (Fields (objs s) m). \<not> groupField (objs s) f)"
  using assms forRange_classifyField_Inr
  by (auto simp: classifyFields_def bind_Inr gets_Inr)

lemma forRange_classifyFields_Inr:
  assumes "forRange ms classifyFields s = Inr (u, s')"
  shows "pass_step s s' \<and> (\<forall>m \<in> set ms. \<forall>f \<in> set (Fields (objs s) m). \<not> groupField (objs s) f)"
  using assms
proof (induction ms arbitrary: s)
  case Nil
  then show ?case by (simp add: return_Inr reflpD[OF pass_step_refl])
next
  case (Cons m ms)
  then obtain s1 where 1: "classifyFields m s = Inr ((), s1)"
    and 2: "forRange ms classifyFields s1 = Inr (u, s')"
    by (auto simp: bind_Inr)
  note a = classifyFields_Inr[OF 1] and b = Cons.IH[OF 2]
  from a have p: "pass_step s s1" by simp
  show ?case
    using a b pass_stepD(1,4)[OF p] by (auto intro: pass_trans)
qed

lemma classifyMessage_Inr:
  assumes "classifyMessage m s = Inr (u, s')"
  shows "pass_step s s' \<and> \<not> visitsGroup (objs s) m"
proof -
  obtain s1 where 1: "forRange (MapEntries (objs s) m) classifyFields s = Inr ((), s1)"
    and 2: "classifyFields m s1 = Inr (u, s')"
    using assms by (auto simp: classifyMessage_def bind_Inr gets_Inr)
  note a = forRange_classifyFields_Inr[OF 1] and b = classifyFields_Inr[OF 2]
  from a have p: "pass_step s s1" by simp
  show ?thesis
    using a b pass_stepD(1,4)[OF p] unfolding visitsGroup_def by (auto intro: pass_trans)
qed

lemma forRange_classifyMessage_Inr:
  assumes "forRange ms classifyMessage s = Inr (u, s')"
  shows "pass_step s s' \<and> (\<forall>m \<in> set ms. \<not> visitsGroup (objs s) m)"
  using assms
proof (induction ms arbitrary: s)
  case Nil
  then show ?case by (simp add: return_Inr reflpD[OF pass_step_refl])
next
  case (Cons m ms)
  then obtain s1 where 1: "classifyMessage m s = Inr ((), s1)"
    and 2: "forRange ms classifyMessage s1 = Inr (u, s')"
    by (auto simp: bind_Inr)
  note a = classifyMessage_Inr[OF 1] and b = Cons.IH[OF 2]
  from a have p: "pass_step s s1" by simp
  show ?case
    using a b pass_stepD(5)[OF p] by (auto intro: pass_trans)
qed

lemma hydrateFileBody_no_group:
  assumes "hydrateFileBody fl f s = Inr (u, s')"
  shows "\<forall>m \<in> set (AllMessages (objs s') fl). \<not> visitsGroup (objs s') m"
proof -
  obtain s3 s4 where 1: "forRange (AllMessages (objs s3) fl) classifyMessage s3 = Inr ((), s4)"
    and 2: "hydrateSourceCodeInfo fl f s4 = Inr (u, s')"
    using assms by (auto simp: hydrateFileBody_def bind_Inr gets_Inr)
  note a = forRange_classifyMessage_Inr[OF 1]
  have "pass_step s4 s'"
    using pass_hydrateSourceCodeInfo 2 unfolding keeps_def by blast
  with a have p: "pass_step s3 s'" by (auto intro: pass_trans)
  show ?thesis
    using a pass_stepD(5,6)[OF p] by simp
qed

lemma hydrateFile_no_group:
  assumes "hydrateFile pk f s = Inr (fl, s')"
  shows "\<forall>m \<in> set (AllMessages (objs s') fl). \<not> visitsGroup (objs s') m"
proof -
  obtain s4 where "hydrateFileBody fl f s4 = Inr ((), s')"
    using assms unfolding hydrateFile_def
    by (auto simp: bind_Inr alloc_Inr return_Inr)
  then show ?thesis by (rule hydrateFileBody_no_group)
qed



subsection \<open>No group field gets a type\<close>

lemma grp_step_refl: "reflp grp_step"
  by (simp add: reflp_def grp_step_def)

lemma grp_step_trans: "transp grp_step"
  by (rule transpI) (simp add: grp_step_def)

lemma typing_Some: "typing ob = Some (d, t) \<longleftrightarrow> (\<exists>x. ob = Field x \<and> field_desc x = d \<and> field_typ x = t)"
  by (cases ob) (auto simp: typing_def)

lemma group_inv_alt:
  "group_inv g \<longleftrightarrow>
     (\<forall>d t. Some (d, Some t) \<in> set (map typing (objs g)) \<longrightarrow> fdp_type d \<noteq> GroupT)"
proof
  assume inv: "group_inv g"
  show "\<forall>d t. Some (d, Some t) \<in> set (map typing (objs g)) \<longrightarrow> fdp_type d \<noteq> GroupT"
  proof (intro allI impI)
    fix d t assume "Some (d, Some t) \<in> set (map typing (objs g))"
    then obtain r where "r < length (objs g)" "typing (objs g ! r) = Some (d, Some t)"
      by (auto simp: in_set_conv_nth)
    then obtain x where "cell (objs g) r = Some (Field x)" "field_desc x = d" "field_typ x = Some t"
      by (auto simp: typing_Some cell_def)
    then show "fdp_type d \<noteq> GroupT"
      using inv unfolding group_inv_def by force
  qed
next
  assume a: "\<forall>d t. Some (d, Some t) \<in> set (map typing (objs g)) \<longrightarrow> fdp_type d \<noteq> GroupT"
  show "group_inv g"
    unfolding group_inv_def
  proof (intro allI impI)
    fix r x assume c: "cell (objs g) r = Some (Field x)" and t: "field_typ x \<noteq> None"
    then obtain ty where ty: "field_typ x = Some ty" by auto
    from c have "r < length (objs g)" "typing (objs g ! r) = Some (field_desc x, Some ty)"
      by (auto simp: cell_def typing_def ty split: if_splits)
    then have "Some (field_desc x, Some ty) \<in> set (map typing (objs g))"
      by (metis length_map nth_map nth_mem)
    with a show "fdp_type (field_desc x) \<noteq> GroupT" by blast
  qed
qed

lemma grp_update: "(\<And>ob. typing (f ob) = typing ob) \<Longrightarrow> keeps grp_step (update r f)"
  unfolding keeps_def grp_step_def update_Inr group_inv_alt
  by (auto simp: map_update_view)

lemma grp_modify: "(\<And>g. objs (f g) = objs g) \<Longrightarrow> keeps grp_step (modify f)"
  unfolding keeps_def grp_step_def modify_Inr group_inv_alt by auto

lemma grp_add: "keeps grp_step (add r)"
  unfolding add_def by (rule grp_modify) simp

lemma grp_alloc: "(\<And>x. ob = Field x \<Longrightarrow> field_typ x = None) \<Longrightarrow> keeps grp_step (alloc ob)"
  unfolding keeps_def grp_step_def alloc_Inr group_inv_alt
  by (auto simp: typing_def split: obj.splits)

lemmas grp_rules =
  keeps_return[OF grp_step_refl] keeps_gets[OF grp_step_refl] keeps_lift[OF grp_step_refl]
  keeps_throw keeps_bind[OF grp_step_trans] keeps_forRange[OF grp_step_refl grp_step_trans]
  keeps_if keeps_case_option grp_add

lemma grp_updaters:
  "keeps grp_step (pkg_addFile p f)"
  "keeps grp_step (file_addEnum fl e)"
  "keeps grp_step (file_addMessage fl m)"
  "keeps grp_step (file_addService fl sv)"
  "keeps grp_step (addValue e v)"
  "keeps grp_step (addMethod sv m)"
  "keeps grp_step (msg_addEnum m e)"
  "keeps grp_step (msg_addMessage m nm)"
  "keeps grp_step (addMapEntry m nm)"
  "keeps grp_step (addOneOf m o1)"
  "keeps grp_step (msg_addField m f)"
  "keeps grp_step (oneof_addField o1 f)"
  "keeps grp_step (addSourceCodeInfo e info)"
  "keeps grp_step (addPackageSourceCodeInfo fl info)"
  "keeps grp_step (method_setIn m i)"
  "keeps grp_step (method_setOut m i)"
  "keeps grp_step (msg_makePreservedMsgs m n)"
  "keeps grp_step (msg_setPreservedMsg m n nm)"
  "keeps grp_step (file_setBuildTarget fl b)"
  unfolding updater_defs
  by (rule grp_update, case_tac ob, simp_all add: typing_def)+

lemma grp_classifyField: "keeps grp_step (classifyField f)"
  unfolding keeps_def grp_step_def
proof (intro allI impI)
  fix s x s' assume run: "classifyField f s = Inr (x, s')" and inv: "group_inv s"
  then obtain t where t: "hydrateFieldType s f = Inr t" and a: "addType f t s = Inr (x, s')"
    by (auto simp: classifyField_def bind_Inr lift_Inr)
  have ng: "\<not> groupField (objs s) f"
    using t hydrateFieldType_group[of s f] by auto
  let ?f = "\<lambda>ob. case ob of Field x \<Rightarrow> Field (x\<lparr>field_typ := Some t\<rparr>) | _ \<Rightarrow> ob"
  have s': "objs s' = (objs s)[f := ?f (objs s ! f)]"
    using a by (simp add: addType_def update_Inr)
  show "group_inv s'"
    unfolding group_inv_def
  proof (intro allI impI)
    fix r y assume c: "cell (objs s') r = Some (Field y)" and ty: "field_typ y \<noteq> None"
    show "fdp_type (field_desc y) \<noteq> GroupT"
    proof (cases "r = f")
      case True
      then have "f < length (objs s)" "?f (objs s ! f) = Field y"
        using c unfolding s' by (auto simp: cell_def split: if_splits)
      then obtain x0 where "cell (objs s) f = Some (Field x0)" "field_desc y = field_desc x0"
        by (cases "objs s ! f") (auto simp: cell_def)
      then show ?thesis
        using ng by (simp add: groupField_def Descriptor_def)
    next
      case False
      then have "cell (objs s) r = Some (Field y)"
        using c unfolding s' by (auto simp: cell_def split: if_splits)
      then show ?thesis using inv ty unfolding group_inv_def by blast
    qed
  qed
qed

lemma traversable_grp: "traversable_top grp_step"
  unfolding traversable_top_def traversable_def
proof (intro conjI allI impI)
  show "reflp grp_step" "transp grp_step"
    by (rule grp_step_refl grp_step_trans)+
  show "keeps grp_step u" if "structural u" for u
    using that by cases (simp_all add: grp_updaters)
  show "keeps grp_step (hydrateMethod sv md)" for sv md
    unfolding hydrateMethod_def by (intro grp_rules grp_updaters grp_alloc) simp
  show "keeps grp_step (bind hm (\<lambda>nm. bind (addNested m nm) (\<lambda>_. k nm)))"
    if "keeps grp_step hm" "\<forall>nm. keeps grp_step (k nm)"
    for m hm and k :: "ref \<Rightarrow> unit M"
    unfolding addNested_def using that by (intro grp_rules grp_updaters) auto
  show "keeps grp_step (classifyField f)" for f
    by (rule grp_classifyField)
  show "keeps grp_step (addSourceCodeInfo e info)"
    "keeps grp_step (addPackageSourceCodeInfo e info)" for e info
    by (rule grp_updaters)+
  show "keeps grp_step (bind (alloc ob) (\<lambda>r. bind (add r) (\<lambda>_. k r)))"
    if "fresh ob" "\<forall>r. keeps grp_step (k r)" for ob and k :: "ref \<Rightarrow> ref M"
    using that by (intro grp_rules grp_alloc) (auto simp: fresh_def)
  show "keeps grp_step (file_setBuildTarget fl b)" "keeps grp_step (pkg_addFile p fl)" for fl b p
    by (rule grp_updaters)+
  show "keeps grp_step (modify f)" if "\<forall>g. objs (f g) = objs g \<and> entities (f g) = entities g" for f
    using that by (intro grp_modify) simp
  show "keeps grp_step (alloc (Pkg \<lparr>pkg_fd = fd, pkg_files = []\<rparr>))" for fd
    by (rule grp_alloc) simp
qed

lemma group_inv_ProcessDescriptors:
  assumes "ProcessDescriptors req = Inr g"
  shows "group_inv g"
  using trav_ProcessDescriptors[OF traversable_grp assms]
  by (simp add: grp_step_def group_inv_def newGraph_def cell_def)


subsection \<open>The fields of the map entries are typed first\<close>











subsection \<open>Map entries are kept apart from the nested messages\<close>

lemma IsMapEntry_alt:
  "IsMapEntry h c \<longleftrightarrow> c < length h \<and> (\<exists>md. descOf (h ! c) = MsgD md \<and> dp_map_entry md)"
  by (cases "h ! c") (auto simp: IsMapEntry_def cell_def descOf_def)

lemma IsMapEntry_view:
  assumes "map descOf h' = map descOf h"
  shows "IsMapEntry h' c = IsMapEntry h c"
proof -
  have "length h' = length h" using assms by (rule map_eq_imp_length_eq)
  moreover have "descOf (h' ! c) = descOf (h ! c)" if "c < length h"
    using that assms \<open>length h' = length h\<close> by (metis nth_map)
  ultimately show ?thesis
    by (cases "c < length h") (simp_all add: IsMapEntry_alt)
qed

lemma IsMapEntry_append: "c < length h \<Longrightarrow> IsMapEntry (h @ [ob]) c = IsMapEntry h c"
  by (simp add: IsMapEntry_alt nth_append)

lemma map_inv_nth:
  "map_inv g \<longleftrightarrow>
     (\<forall>a<length (objs g). \<forall>x. objs g ! a = Msg x \<longrightarrow>
        (\<forall>c \<in> set (msg_msgs x). c < length (objs g) \<and> \<not> IsMapEntry (objs g) c) \<and>
        (\<forall>c \<in> set (msg_maps x). IsMapEntry (objs g) c))"
  by (auto simp: map_inv_def cell_Some)

lemma nesting_Msg:
  "nesting a = nesting b \<Longrightarrow> a = Msg x \<Longrightarrow>
     \<exists>y. b = Msg y \<and> msg_msgs y = msg_msgs x \<and> msg_maps y = msg_maps x"
  by (cases b) (auto simp: nesting_def descOf_def)

lemma map_inv_view1:
  assumes v: "map nesting (objs s') = map nesting (objs s)" and inv: "map_inv s"
  shows "map_inv s'"
proof -
  have len: "length (objs s') = length (objs s)" using v by (rule map_eq_imp_length_eq)
  have n: "nesting (objs s' ! a) = nesting (objs s ! a)" if "a < length (objs s)" for a
    using that v len by (metis nth_map)
  have "map descOf (objs s') = map descOf (objs s)"
  proof (rule nth_equalityI)
    show "length (map descOf (objs s')) = length (map descOf (objs s))" using len by simp
    fix i assume "i < length (map descOf (objs s'))"
    then show "map descOf (objs s') ! i = map descOf (objs s) ! i"
      using n[of i] len by (simp add: nesting_def)
  qed
  then have e: "IsMapEntry (objs s') c = IsMapEntry (objs s) c" for c
    by (rule IsMapEntry_view)
  show ?thesis
    unfolding map_inv_nth
  proof (intro allI impI)
    fix a x assume a: "a < length (objs s')" and x: "objs s' ! a = Msg x"
    from a len have a': "a < length (objs s)" by simp
    from nesting_Msg[OF n[OF a'] x] obtain y where
      y: "objs s ! a = Msg y" "msg_msgs y = msg_msgs x" "msg_maps y = msg_maps x" by blast
    from inv a' y(1) have
      "(\<forall>c \<in> set (msg_msgs y). c < length (objs s) \<and> \<not> IsMapEntry (objs s) c) \<and>
       (\<forall>c \<in> set (msg_maps y). IsMapEntry (objs s) c)"
      unfolding map_inv_nth by blast
    then show "(\<forall>c \<in> set (msg_msgs x). c < length (objs s') \<and> \<not> IsMapEntry (objs s') c) \<and>
       (\<forall>c \<in> set (msg_maps x). IsMapEntry (objs s') c)"
      unfolding e len y(2,3) .
  qed
qed

lemma map_step_refl: "reflp map_step"
  by (rule reflpI) (simp add: map_step_def)

lemma map_step_trans: "transp map_step"
  by (rule transpI) (simp add: map_step_def)

lemma map_update:
  assumes "\<And>ob. nesting (f ob) = nesting ob"
  shows "keeps map_step (update r f)"
  unfolding keeps_def map_step_def
proof (intro allI impI)
  fix s x s' assume "update r f s = Inr (x, s')" and inv: "map_inv s"
  then have "map nesting (objs s') = map nesting (objs s)"
    using assms by (simp add: update_Inr map_update_view)
  then show "map_inv s'" using inv by (rule map_inv_view1)
qed

lemma map_modify: "(\<And>g. objs (f g) = objs g) \<Longrightarrow> keeps map_step (modify f)"
  unfolding keeps_def map_step_def modify_Inr map_inv_def by auto

lemma map_add: "keeps map_step (add r)"
  unfolding add_def by (rule map_modify) simp

lemma map_alloc:
  assumes "\<And>x. ob = Msg x \<Longrightarrow> msg_msgs x = [] \<and> msg_maps x = []"
  shows "keeps map_step (alloc ob)"
  unfolding keeps_def map_step_def alloc_Inr
proof (intro allI impI)
  fix s x s' assume s': "x = length (objs s) \<and> s' = s\<lparr>objs := objs s @ [ob]\<rparr>"
    and inv: "map_inv s"
  show "map_inv s'"
    unfolding map_inv_nth
  proof (intro allI impI)
    fix a y assume a: "a < length (objs s')" and y: "objs s' ! a = Msg y"
    show "(\<forall>c \<in> set (msg_msgs y). c < length (objs s') \<and> \<not> IsMapEntry (objs s') c) \<and>
       (\<forall>c \<in> set (msg_maps y). IsMapEntry (objs s') c)"
    proof (cases "a < length (objs s)")
      case True
      then have "objs s ! a = Msg y" using y s' by (simp add: nth_append)
      with inv True have
        i: "\<forall>c \<in> set (msg_msgs y). c < length (objs s) \<and> \<not> IsMapEntry (objs s) c"
          "\<forall>c \<in> set (msg_maps y). IsMapEntry (objs s) c"
        unfolding map_inv_nth by blast+
      have "\<forall>c \<in> set (msg_maps y). c < length (objs s)"
        using i(2) by (auto simp: IsMapEntry_alt)
      with i show ?thesis
        using s' by (auto simp: IsMapEntry_append)
    next
      case False
      then have "ob = Msg y" using a y s' by (auto simp: nth_append)
      then show ?thesis using assms by simp
    qed
  qed
qed

lemmas map_rules =
  keeps_return[OF map_step_refl] keeps_gets[OF map_step_refl] keeps_lift[OF map_step_refl]
  keeps_throw keeps_bind[OF map_step_trans] keeps_forRange[OF map_step_refl map_step_trans]
  keeps_if keeps_case_option map_add

lemma map_updaters:
  "keeps map_step (pkg_addFile p f)"
  "keeps map_step (file_addEnum fl e)"
  "keeps map_step (file_addMessage fl m)"
  "keeps map_step (file_addService fl sv)"
  "keeps map_step (addValue e v)"
  "keeps map_step (addMethod sv m)"
  "keeps map_step (msg_addEnum m e)"
  "keeps map_step (addOneOf m o1)"
  "keeps map_step (msg_addField m f)"
  "keeps map_step (oneof_addField o1 f)"
  "keeps map_step (addType f t)"
  "keeps map_step (addSourceCodeInfo e info)"
  "keeps map_step (addPackageSourceCodeInfo fl info)"
  "keeps map_step (method_setIn m i)"
  "keeps map_step (method_setOut m i)"
  "keeps map_step (msg_makePreservedMsgs m n)"
  "keeps map_step (msg_setPreservedMsg m n nm)"
  "keeps map_step (file_setBuildTarget fl b)"
  unfolding updater_defs
  by (rule map_update, case_tac ob, simp_all add: nesting_def descOf_def)+

text \<open>The sorting of a nested message that has just been hydrated.\<close>

lemma addNested_Inr:
  "addNested m nm s = Inr (u, s') \<longleftrightarrow>
     s' = s\<lparr>objs := (objs s)[m :=
            (case objs s ! m of
               Msg x \<Rightarrow> if IsMapEntry (objs s) nm then Msg (x\<lparr>msg_maps := msg_maps x @ [nm]\<rparr>)
                         else Msg (x\<lparr>msg_msgs := msg_msgs x @ [nm]\<rparr>)
             | _ \<Rightarrow> objs s ! m)]\<rparr>"
  by (cases "objs s ! m")
     (auto simp: addNested_def bind_Inr gets_Inr addMapEntry_def msg_addMessage_def update_Inr)

lemma map_addNested:
  assumes run: "addNested m nm s = Inr (u, s')" and nm: "nm < length (objs s)"
    and inv: "map_inv s"
  shows "map_inv s'"
proof -
  let ?g = "\<lambda>ob. case ob of
               Msg x \<Rightarrow> if IsMapEntry (objs s) nm then Msg (x\<lparr>msg_maps := msg_maps x @ [nm]\<rparr>)
                         else Msg (x\<lparr>msg_msgs := msg_msgs x @ [nm]\<rparr>)
             | _ \<Rightarrow> ob"
  have s': "objs s' = (objs s)[m := ?g (objs s ! m)]"
    using run unfolding addNested_Inr by simp
  have len: "length (objs s') = length (objs s)" unfolding s' by simp
  have "descOf (?g ob) = descOf ob" for ob
    by (cases ob) (simp_all add: descOf_def)
  then have "map descOf (objs s') = map descOf (objs s)"
    unfolding s' by (rule map_update_view)
  then have e: "IsMapEntry (objs s') c = IsMapEntry (objs s) c" for c
    by (rule IsMapEntry_view)
  show ?thesis
    unfolding map_inv_nth
  proof (intro allI impI)
    fix a x assume a: "a < length (objs s')" and x: "objs s' ! a = Msg x"
    from a len have a': "a < length (objs s)" by simp
    have r: "objs s' ! a = (if m = a then ?g (objs s ! a) else objs s ! a)"
      unfolding s' using a' by (auto simp add: nth_list_update_read)
    obtain y where y: "objs s ! a = Msg y"
      using r x by (cases "objs s ! a") (auto split: if_splits)
    from inv a' y have
      i: "\<forall>c \<in> set (msg_msgs y). c < length (objs s) \<and> \<not> IsMapEntry (objs s) c"
        "\<forall>c \<in> set (msg_maps y). IsMapEntry (objs s) c"
      unfolding map_inv_nth by blast+
    show "(\<forall>c \<in> set (msg_msgs x). c < length (objs s') \<and> \<not> IsMapEntry (objs s') c) \<and>
       (\<forall>c \<in> set (msg_maps x). IsMapEntry (objs s') c)"
      unfolding e len using r x y i nm by (auto split: if_splits)
  qed
qed

lemma traversable_map: "traversable_top map_step"
  unfolding traversable_top_def traversable_def
proof (intro conjI allI impI)
  show "reflp map_step" "transp map_step"
    by (rule map_step_refl map_step_trans)+
  show "keeps map_step u" if "structural u" for u
    using that by cases (simp_all add: map_updaters)
  show "keeps map_step (hydrateMethod sv md)" for sv md
    unfolding hydrateMethod_def by (intro map_rules map_updaters map_alloc) simp
  show "keeps map_step (bind hm (\<lambda>nm. bind (addNested m nm) (\<lambda>_. k nm)))"
    if hm: "keeps map_step hm" and y: "yieldsMsg hm" and k: "\<forall>nm. keeps map_step (k nm)"
    for m hm and k :: "ref \<Rightarrow> unit M"
    unfolding keeps_def
  proof (intro allI impI)
    fix s x s' assume run: "bind hm (\<lambda>nm. bind (addNested m nm) (\<lambda>_. k nm)) s = Inr (x, s')"
    then obtain nm s1 s2 where 1: "hm s = Inr (nm, s1)"
      and 2: "addNested m nm s1 = Inr ((), s2)" and 3: "k nm s2 = Inr (x, s')"
      by (auto simp: bind_Inr)
    have a: "map_step s s1" using hm 1 unfolding keeps_def by blast
    have "nm < length (objs s1)" using y 1 unfolding yieldsMsg_def by blast
    then have b: "map_step s1 s2" using map_addNested[OF 2] by (simp add: map_step_def)
    have c: "map_step s2 s'" using k 3 unfolding keeps_def by blast
    from a b c show "map_step s s'" by (simp add: map_step_def)
  qed
  show "keeps map_step (classifyField f)" for f
    unfolding classifyField_def by (intro map_rules map_updaters)
  show "keeps map_step (addSourceCodeInfo e info)"
    "keeps map_step (addPackageSourceCodeInfo e info)" for e info
    by (rule map_updaters)+
  show "keeps map_step (bind (alloc ob) (\<lambda>r. bind (add r) (\<lambda>_. k r)))"
    if "fresh ob" "\<forall>r. keeps map_step (k r)" for ob and k :: "ref \<Rightarrow> ref M"
    using that by (intro map_rules map_alloc) (auto simp: fresh_def)
  show "keeps map_step (file_setBuildTarget fl b)" "keeps map_step (pkg_addFile p fl)" for fl b p
    by (rule map_updaters)+
  show "keeps map_step (modify f)" if "\<forall>g. objs (f g) = objs g \<and> entities (f g) = entities g" for f
    using that by (intro map_modify) simp
  show "keeps map_step (alloc (Pkg \<lparr>pkg_fd = fd, pkg_files = []\<rparr>))" for fd
    by (rule map_alloc) simp
qed

lemma map_inv_ProcessDescriptors:
  assumes "ProcessDescriptors req = Inr g"
  shows "map_inv g"
proof -
  have "map_inv newGraph" by (simp add: map_inv_def newGraph_def cell_def)
  moreover have "map_step newGraph g"
    using traversable_map assms by (rule trav_ProcessDescriptors)
  ultimately show ?thesis by (simp add: map_step_def)
qed


subsection \<open>Cross-references point to the registered entities\<close>

lemma named_ext:
  assumes "extv ident h h'"
  shows "enumNamed h n r \<Longrightarrow> enumNamed h' n r" "msgNamed h n r \<Longrightarrow> msgNamed h' n r"
proof -
  have d: "r < length h \<Longrightarrow> r < length h' \<and> descOf (h' ! r) = descOf (h ! r)" for r
    using assms by (auto simp: extv_def ident_def)
  show "enumNamed h n r \<Longrightarrow> enumNamed h' n r"
    using d[of r] resolveFQN_ext[OF assms, of r]
    by (cases "h' ! r") (auto simp: enumNamed_def cell_Some descOf_def)
  show "msgNamed h n r \<Longrightarrow> msgNamed h' n r"
    using d[of r] resolveFQN_ext[OF assms, of r]
    by (cases "h' ! r") (auto simp: msgNamed_def cell_Some descOf_def)
qed

lemma linkedType_ext: "extv ident h h' \<Longrightarrow> linkedType h n t \<Longrightarrow> linkedType h' n t"
  by (auto simp: linkedType_def linkedElem_def dest: named_ext
        split: FieldType.splits FieldTypeElem.splits)

lemma linked_ext: "extv ident h h' \<Longrightarrow> linked h ob \<Longrightarrow> linked h' ob"
  by (cases ob) (auto simp: linked_def dest: named_ext linkedType_ext)

lemma xref_inv_alloc:
  assumes "xref_inv s" "linked (objs s) ob"
  shows "xref_inv (s\<lparr>objs := objs s @ [ob]\<rparr>)"
  using assms linked_ext[OF extv_append[of ident "objs s" ob]]
  by (auto simp: xref_inv_def nth_append less_Suc_eq)

lemma extv_ident_update:
  "(r < length h \<Longrightarrow> ident ob' = ident (h ! r)) \<Longrightarrow> extv ident h (h[r := ob'])"
  by (auto simp: extv_def nth_list_update_read)

lemma xref_inv_update:
  assumes "xref_inv s" "r < length (objs s) \<Longrightarrow> ident ob' = ident (objs s ! r)"
    "linked (objs s) ob'"
  shows "xref_inv (s\<lparr>objs := (objs s)[r := ob']\<rparr>)"
proof -
  have e: "extv ident (objs s) ((objs s)[r := ob'])"
    using assms(2) by (rule extv_ident_update)
  show ?thesis
    using assms(1,3) linked_ext[OF e]
    by (auto simp: xref_inv_def nth_list_update_read)
qed

lemma xref_step_refl: "reflp xref_step"
  using fqn_step_refl by (simp add: reflp_def xref_step_def)

lemma xref_trans: "xref_step a b \<Longrightarrow> xref_step b c \<Longrightarrow> xref_step a c"
  unfolding xref_step_def using fqn_trans by (auto simp: fqn_step_def)

lemma xref_step_trans: "transp xref_step"
  by (rule transpI) (rule xref_trans)

lemma xref_update:
  assumes "\<And>ob. ident (f ob) = ident ob" "\<And>h ob. linked h ob \<Longrightarrow> linked h (f ob)"
  shows "keeps xref_step (update r f)"
  unfolding keeps_def xref_step_def
proof (intro allI impI conjI)
  fix s x s' assume run: "update r f s = Inr (x, s')"
  show "fqn_step s s'"
    using fqn_update[of f r, OF assms(1)] run unfolding keeps_def by blast
  assume "registry_inv s" and inv: "xref_inv s"
  have s': "s' = s\<lparr>objs := (objs s)[r := f (objs s ! r)]\<rparr>"
    using run by (simp add: update_Inr)
  show "xref_inv s'"
  proof (cases "r < length (objs s)")
    case True
    then have "linked (objs s) (f (objs s ! r))"
      using inv assms(2) by (simp add: xref_inv_def)
    then show ?thesis
      unfolding s' using inv assms(1) by (intro xref_inv_update) simp_all
  next
    case False
    then show ?thesis unfolding s' using inv by (simp add: xref_inv_def list_update_beyond)
  qed
qed

lemma xref_modify:
  assumes "\<And>g. objs (f g) = objs g \<and> entities (f g) = entities g"
  shows "keeps xref_step (modify f)"
  using fqn_modify[of f, OF assms] assms
  unfolding keeps_def xref_step_def modify_Inr xref_inv_def by auto

lemma xref_alloc:
  assumes "\<not> isEntity ob" "\<And>h. linked h ob"
  shows "keeps xref_step (alloc ob)"
  using fqn_alloc[OF assms(1)] assms(2)
  unfolding keeps_def xref_step_def alloc_Inr by (auto intro: xref_inv_alloc)

lemma xref_new:
  assumes "isEntity ob" "\<And>h. linked h ob" "\<And>r. keeps xref_step (k r)"
  shows "keeps xref_step (bind (alloc ob) (\<lambda>r. bind (add r) (\<lambda>_. k r)))"
proof -
  have "xref_step s (s\<lparr>objs := objs s @ [ob],
            entities := (entities s)(resolveFQN (objs s @ [ob]) (length (objs s)) \<mapsto> length (objs s))\<rparr>)" for s
    using assms(1,2) xref_inv_alloc[of s ob]
    by (simp add: xref_step_def fqn_step_def extv_append registry_inv_new xref_inv_def)
  then show ?thesis
    using assms(3) unfolding keeps_def bind_Inr alloc_Inr add_Inr
    by (fastforce intro: xref_trans)
qed

lemmas xref_rules =
  keeps_return[OF xref_step_refl] keeps_gets[OF xref_step_refl] keeps_lift[OF xref_step_refl]
  keeps_throw keeps_bind[OF xref_step_trans] keeps_forRange[OF xref_step_refl xref_step_trans]
  keeps_if keeps_case_option

lemma xref_updaters:
  "keeps xref_step (pkg_addFile p f)"
  "keeps xref_step (file_addEnum fl e)"
  "keeps xref_step (file_addMessage fl m)"
  "keeps xref_step (file_addService fl sv)"
  "keeps xref_step (addValue e v)"
  "keeps xref_step (addMethod sv m)"
  "keeps xref_step (msg_addEnum m e)"
  "keeps xref_step (msg_addMessage m nm)"
  "keeps xref_step (addMapEntry m nm)"
  "keeps xref_step (addOneOf m o1)"
  "keeps xref_step (msg_addField m f)"
  "keeps xref_step (oneof_addField o1 f)"
  "keeps xref_step (addSourceCodeInfo e info)"
  "keeps xref_step (addPackageSourceCodeInfo fl info)"
  "keeps xref_step (msg_makePreservedMsgs m n)"
  "keeps xref_step (msg_setPreservedMsg m n nm)"
  "keeps xref_step (file_setBuildTarget fl b)"
  unfolding updater_defs
  by (rule xref_update, (case_tac ob, simp_all add: ident_def descOf_def parentOf_def)[1],
      (case_tac ob, simp_all add: linked_def)[1])+

text \<open>A reference that \<^verbatim>\<open>mustSeen\<close> resolves is to the entity named by the FQN.\<close>

lemma mustSeen_named:
  assumes "registry_inv g" "mustSeen g n = Inr e"
  shows "assertMessage g e = Inr m \<Longrightarrow> m = e \<and> msgNamed (objs g) n m"
    and "assertEnum g e = Inr m \<Longrightarrow> m = e \<and> enumNamed (objs g) n m"
proof -
  from assms(2) have "entities g n = Some e"
    by (simp add: mustSeen_def split: option.splits)
  with assms(1) have r: "resolveFQN (objs g) e = n"
    unfolding registry_inv_def by blast
  show "assertMessage g e = Inr m \<Longrightarrow> m = e \<and> msgNamed (objs g) n m"
    using r by (auto simp: assertMessage_def msgNamed_def split: option.splits obj.splits)
  show "assertEnum g e = Inr m \<Longrightarrow> m = e \<and> enumNamed (objs g) n m"
    using r by (auto simp: assertEnum_def enumNamed_def split: option.splits obj.splits)
qed

lemma andThen_Inr: "andThen r f = Inr y \<longleftrightarrow> (\<exists>x. r = Inr x \<and> f x = Inr y)"
  by (cases r) (simp_all add: andThen_def)

lemma enumType_linked:
  assumes "registry_inv g" "hydrateEnumFieldType g s = Inr t"
  shows "linkedType (objs g) (fdp_type_name (Descriptor (objs g) (fld s))) t"
proof -
  from assms(2) obtain e en where "mustSeen g (fdp_type_name (Descriptor (objs g) (fld s))) = Inr e"
    "assertEnum g e = Inr en" "t = enumT (fld s) en"
    unfolding hydrateEnumFieldType_def andThen_Inr by blast
  with mustSeen_named(2)[OF assms(1)] show ?thesis by (auto simp: linkedType_def)
qed

lemma embedType_linked:
  assumes "registry_inv g" "hydrateEmbedFieldType g s = Inr t"
  shows "linkedType (objs g) (fdp_type_name (Descriptor (objs g) (fld s))) t"
proof -
  from assms(2) obtain e m where "mustSeen g (fdp_type_name (Descriptor (objs g) (fld s))) = Inr e"
    "assertMessage g e = Inr m" "t = embedT (fld s) m"
    unfolding hydrateEmbedFieldType_def andThen_Inr by blast
  with mustSeen_named(1)[OF assms(1)] show ?thesis by (auto simp: linkedType_def)
qed

lemma repeatedType_linked:
  assumes inv: "registry_inv g" and run: "hydrateRepeatedFieldType g s = Inr t"
  shows "linkedType (objs g) (fdp_type_name (Descriptor (objs g) (fld s))) t"
proof -
  let ?n = "fdp_type_name (Descriptor (objs g) (fld s))"
  show ?thesis
  proof (cases "ProtoType (objs g) s = EnumT")
    case True
    with run obtain e en p where "mustSeen g ?n = Inr e" "assertEnum g e = Inr en"
      "t = repT (fld s) (enumE p en)"
      unfolding hydrateRepeatedFieldType_def Let_def by (auto simp: andThen_Inr)
    with mustSeen_named(2)[OF inv] show ?thesis
      by (auto simp: linkedType_def linkedElem_def)
  next
    case False
    show ?thesis
    proof (cases "ProtoType (objs g) s = MessageT")
      case True
      with run obtain e m where m: "mustSeen g ?n = Inr e" "assertMessage g e = Inr m"
        and r: "(\<exists>k el. t = mapT (fld s) k el) \<or> (\<exists>p. t = repT (fld s) (embedE p m))"
        unfolding hydrateRepeatedFieldType_def Let_def
        by (auto simp: andThen_Inr hydrateMapFieldType_def split: if_splits)
      with mustSeen_named(1)[OF inv m] show ?thesis
        by (auto simp: linkedType_def linkedElem_def)
    next
      case False
      with \<open>ProtoType (objs g) s \<noteq> EnumT\<close> run show ?thesis
        by (auto simp: hydrateRepeatedFieldType_def Let_def linkedType_def linkedElem_def)
    qed
  qed
qed

lemma hydrateFieldType_linked:
  assumes inv: "registry_inv g" and run: "hydrateFieldType g f = Inr t"
  shows "linkedType (objs g) (fdp_type_name (Descriptor (objs g) f)) t"
proof -
  have "hydrateRepeatedFieldType g (scalarT f) = Inr t \<or> hydrateEnumFieldType g (scalarT f) = Inr t
      \<or> hydrateEmbedFieldType g (scalarT f) = Inr t \<or> t = scalarT f"
    using run unfolding hydrateFieldType_def Let_def by (simp split: if_splits)
  then show ?thesis
    using repeatedType_linked[OF inv, of "scalarT f" t] enumType_linked[OF inv, of "scalarT f" t]
      embedType_linked[OF inv, of "scalarT f" t]
    by (auto simp: linkedType_def)
qed

lemma xref_classifyField: "keeps xref_step (classifyField f)"
  unfolding keeps_def xref_step_def
proof (intro allI impI conjI)
  fix s x s' assume run: "classifyField f s = Inr (x, s')"
  show "fqn_step s s'"
    using fqn_updaters run unfolding keeps_def classifyField_def bind_Inr lift_Inr
    by (metis fqn_step_def)
  assume reg: "registry_inv s" and inv: "xref_inv s"
  from run obtain t where t: "hydrateFieldType s f = Inr t" and a: "addType f t s = Inr (x, s')"
    by (auto simp: classifyField_def bind_Inr lift_Inr)
  let ?g = "\<lambda>ob. case ob of Field x \<Rightarrow> Field (x\<lparr>field_typ := Some t\<rparr>) | _ \<Rightarrow> ob"
  have s': "s' = s\<lparr>objs := (objs s)[f := ?g (objs s ! f)]\<rparr>"
    using a by (simp add: addType_def update_Inr)
  have l: "linkedType (objs s) (fdp_type_name (Descriptor (objs s) f)) t"
    using reg t by (rule hydrateFieldType_linked)
  show "xref_inv s'"
  proof (cases "f < length (objs s)")
    case True
    have "linked (objs s) (?g (objs s ! f))"
    proof (cases "objs s ! f")
      case (Field y)
      then have "Descriptor (objs s) f = field_desc y"
        using True by (simp add: Descriptor_def cell_def)
      with l Field show ?thesis by (simp add: linked_def)
    next
      case (Method y)
      then show ?thesis using inv True by (auto simp: xref_inv_def)
    qed (simp_all add: linked_def)
    moreover have "ident (?g (objs s ! f)) = ident (objs s ! f)"
      by (cases "objs s ! f") (simp_all add: ident_def descOf_def parentOf_def)
    ultimately show ?thesis
      unfolding s' using inv by (intro xref_inv_update) simp_all
  next
    case False
    then show ?thesis unfolding s' using inv by (simp add: xref_inv_def list_update_beyond)
  qed
qed

lemma xref_hydrateMethod: "keeps xref_step (hydrateMethod sv md)"
  unfolding keeps_def xref_step_def
proof (intro allI impI conjI)
  fix s r s' assume run: "hydrateMethod sv md s = Inr (r, s')"
  show "fqn_step s s'"
    using fqn_hydrateMethod run unfolding keeps_def by blast
  assume reg: "registry_inv s" and inv: "xref_inv s"
  let ?M = "\<lambda>i out. Method \<lparr>mth_desc = md, mth_service = sv, mth_in = i, mth_out = out,
                             mth_info = None\<rparr>"
  let ?m = "length (objs s)"
  let ?h1 = "objs s @ [?M None None]"
  let ?s2 = "s\<lparr>objs := ?h1, entities := (entities s)(resolveFQN ?h1 ?m \<mapsto> ?m)\<rparr>"
  from run obtain e i e' out where
    a: "mustSeen ?s2 (md_input_type md) = Inr e" "assertMessage ?s2 e = Inr i"
    and b: "mustSeen (?s2\<lparr>objs := ?h1[?m := ?M (Some i) None]\<rparr>) (md_output_type md) = Inr e'"
      "assertMessage (?s2\<lparr>objs := ?h1[?m := ?M (Some i) None]\<rparr>) e' = Inr out"
    and s': "s' = ?s2\<lparr>objs := ?h1[?m := ?M (Some i) (Some out)]\<rparr>"
    unfolding hydrateMethod_def bind_Inr alloc_Inr add_Inr lift_Inr andThen_Inr
      method_setIn_def method_setOut_def update_Inr return_Inr
    by auto
  let ?s3 = "?s2\<lparr>objs := ?h1[?m := ?M (Some i) None]\<rparr>"
  have reg2: "registry_inv ?s2"
    using reg by (intro registry_inv_new) (simp_all add: isEntity_def)
  have "xref_inv (s\<lparr>objs := ?h1\<rparr>)"
    using inv by (rule xref_inv_alloc) (simp add: linked_def)
  then have inv2: "xref_inv ?s2" by (simp add: xref_inv_def)
  have nin: "msgNamed (objs ?s2) (md_input_type md) i"
    by (rule mustSeen_named(1)[OF reg2 a, THEN conjunct2])
  have id: "ident (?M x y) = (MethodD md, Some sv)" for x y
    by (simp add: ident_def descOf_def parentOf_def)
  have at2: "objs ?s2 ! ?m = ?M None None" by simp
  have "xref_inv (?s2\<lparr>objs := (objs ?s2)[?m := ?M (Some i) None]\<rparr>)"
  proof (rule xref_inv_update)
    show "xref_inv ?s2" by (rule inv2)
    show "ident (?M (Some i) None) = ident (objs ?s2 ! ?m)"
      unfolding at2 id ..
    show "linked (objs ?s2) (?M (Some i) None)"
      using nin by (simp add: linked_def)
  qed
  then have inv3: "xref_inv ?s3" by simp
  have e23: "extv ident (objs ?s2) (objs ?s3)"
    using extv_ident_update[of ?m ?h1 "?M (Some i) None"] by (simp add: id)
  have reg3: "registry_inv ?s3"
    using reg2 e23 by (intro registry_inv_view[of ?s3 ?s2]) simp_all
  have nout: "msgNamed (objs ?s3) (md_output_type md) out"
    by (rule mustSeen_named(1)[OF reg3 b, THEN conjunct2])
  have nin3: "msgNamed (objs ?s3) (md_input_type md) i"
    using named_ext(2)[OF e23 nin] .
  have at3: "objs ?s3 ! ?m = ?M (Some i) None" by simp
  have "xref_inv (?s3\<lparr>objs := (objs ?s3)[?m := ?M (Some i) (Some out)]\<rparr>)"
  proof (rule xref_inv_update)
    show "xref_inv ?s3" by (rule inv3)
    show "ident (?M (Some i) (Some out)) = ident (objs ?s3 ! ?m)"
      unfolding at3 id ..
    show "linked (objs ?s3) (?M (Some i) (Some out))"
      using nin3 nout by (simp add: linked_def)
  qed
  then show "xref_inv s'" unfolding s' by simp
qed

lemma traversable_xref: "traversable_top xref_step"
  unfolding traversable_top_def traversable_def
proof (intro conjI allI impI)
  show "reflp xref_step" "transp xref_step"
    by (rule xref_step_refl xref_step_trans)+
  show "keeps xref_step u" if "structural u" for u
    using that by cases (simp_all add: xref_updaters)
  show "keeps xref_step (hydrateMethod sv md)" for sv md
    by (rule xref_hydrateMethod)
  show "keeps xref_step (bind hm (\<lambda>nm. bind (addNested m nm) (\<lambda>_. k nm)))"
    if "keeps xref_step hm" "\<forall>nm. keeps xref_step (k nm)"
    for m hm and k :: "ref \<Rightarrow> unit M"
    unfolding addNested_def using that by (intro xref_rules xref_updaters) auto
  show "keeps xref_step (classifyField f)" for f
    by (rule xref_classifyField)
  show "keeps xref_step (addSourceCodeInfo e info)"
    "keeps xref_step (addPackageSourceCodeInfo e info)" for e info
    by (rule xref_updaters)+
  show "keeps xref_step (bind (alloc ob) (\<lambda>r. bind (add r) (\<lambda>_. k r)))"
    if "isEntity ob" "fresh ob" "\<forall>r. keeps xref_step (k r)" for ob and k :: "ref \<Rightarrow> ref M"
    using that by (intro xref_new) (auto simp: fresh_def linked_def split: obj.splits)
  show "keeps xref_step (file_setBuildTarget fl b)" "keeps xref_step (pkg_addFile p fl)" for fl b p
    by (rule xref_updaters)+
  show "keeps xref_step (modify f)" if "\<forall>g. objs (f g) = objs g \<and> entities (f g) = entities g" for f
    using that by (intro xref_modify) simp
  show "keeps xref_step (alloc (Pkg \<lparr>pkg_fd = fd, pkg_files = []\<rparr>))" for fd
    by (rule xref_alloc) (simp_all add: isEntity_def linked_def)
qed

lemma xref_inv_ProcessDescriptors:
  assumes "ProcessDescriptors req = Inr g"
  shows "xref_inv g"
proof -
  have "xref_inv newGraph" by (simp add: xref_inv_def newGraph_def)
  moreover have "xref_step newGraph g"
    using traversable_xref assms by (rule trav_ProcessDescriptors)
  ultimately show ?thesis
    using registry_inv_newGraph by (simp add: xref_step_def)
qed

lemma registry_lookup:
  assumes inv: "registry_inv g" and wf: "wellFormed g"
    and e: "e < length (objs g)" "isEntity (objs g ! e)"
  shows "Lookup g (resolveFQN (objs g) e) = (Some e, True)"
proof -
  obtain r where r: "entities g (resolveFQN (objs g) e) = Some r"
    using inv e unfolding registry_inv_def by blast
  with inv have "r < length (objs g)" "isEntity (objs g ! r)"
    "resolveFQN (objs g) r = resolveFQN (objs g) e"
    unfolding registry_inv_def by blast+
  moreover have "inj_on (resolveFQN (objs g)) (set (hydrated (objs g)))"
    using wf by (simp add: wellFormed_def distinct_map)
  ultimately have "r = e"
    using e by (auto simp: inj_on_def hydrated_iff)
  with r show ?thesis by (simp add: Lookup_def)
qed

lemma named_lookup:
  assumes "registry_inv g" "wellFormed g"
  shows "enumNamed (objs g) n r \<Longrightarrow> Lookup g n = (Some r, True)"
    and "msgNamed (objs g) n r \<Longrightarrow> Lookup g n = (Some r, True)"
  using registry_lookup[OF assms, of r]
  by (auto simp: enumNamed_def msgNamed_def cell_Some isEntity_def)

section \<open>The claims\<close>

subsection \<open>Evaluation of the examples\<close>

lemmas monad_defs =
  bind_def return_def gets_def modify_def lift_def throw_def alloc_def update_def add_def
  andThen_def Let_def

lemmas fqn_defs =
  cell_def resolveFQN_def Name_def FullyQualifiedName.simps parentOf_def packageOf_def

lemmas run_defs =
  ProcessDescriptors_def processFile_def hydratePackage_def hydrateFile_def hydrateFileBody_def
  hydrateEnum_def hydrateEnumValue_def hydrateService_def hydrateMethod_def hydrateField_def
  hydrateOneOf_def addNested_def classifyField_def classifyFields_def classifyMessage_def
  hydrateSourceCodeInfo_def hydrateLocation_def attachToChild_def newGraph_def
  hydrateFieldType_def hydrateRepeatedFieldType_def hydrateEnumFieldType_def
  hydrateEmbedFieldType_def hydrateMapFieldType_def elemOfField_def mustSeen_def
  assertMessage_def assertEnum_def oneofAt_def at_def toElem_def
  updater_defs AllMessages_def msg_AllMessages.simps Fields_def MapEntries_def Type_def
  Descriptor_def ProtoType_def ProtoLabel_def IsMapEntry_def

lemma ex_enum_run: "ProcessDescriptors ex_enum_request = Inr ex_enum_graph"
  by (simp add: ProcessDescriptors_def ex_enum_request_def ex_enum_file_def ex_enum_graph_def
        processFile_def hydratePackage_def hydrateFile_def hydrateFileBody_def hydrateEnum_def monad_defs fqn_defs
        newGraph_def file_setBuildTarget_def file_addEnum_def pkg_addFile_def AllMessages_def
        hydrateSourceCodeInfo_def)

lemma ex_ab_run: "ProcessDescriptors ex_ab_request = Inr ex_ab_graph"
  by (simp add: ex_ab_request_def ex_a_file_def ex_b_file_def ex_items_field_def ex_ab_graph_def
        run_defs monad_defs fqn_defs eval_nat_numeral)

lemma ex_b_run: "hydrateFile 0 ex_b_file ex_pkg_graph = Inr (Suc 0, ex_b_graph)"
  by (simp add: ex_b_file_def ex_pkg_graph_def ex_b_graph_def run_defs monad_defs fqn_defs)

lemma ex_group_run:
  "ProcessDescriptors ex_group_request
     = Inl (Fail ''group types are deprecated and unsupported. Use an embedded message instead.'')"
  by (simp add: ex_group_request_def ex_group_file_def ex_group_field_def run_defs monad_defs
        fqn_defs)

lemma ex_enum_wellFormed: "wellFormed ex_enum_graph"
  by (simp add: wellFormed_def hydrated_def ex_enum_graph_def isEntity_def fqn_defs upt_rec
        ex_enum_file_def)

lemmas ex_map_defs =
  ex_map_state_def ex_map_graph_def ex_foo_field_def ex_key_field_def ex_value_field_def
  ex_entry_msg_def ex_inner_msg_def ex_map_msg_def

lemma ex_map_lists:
  "MapEntries (objs (ex_map_state a b c)) 2 = [3]"
  "Fields (objs (ex_map_state a b c)) 3 = [4, 5]"
  "Fields (objs (ex_map_state a b c)) 2 = [7]"
  by (simp_all add: ex_map_state_def MapEntries_def Fields_def cell_def)






lemma ex_map_type:
  "hydrateFieldType (ex_map_state (Some (scalarT 4)) (Some (scalarT 5)) None) 7
     = Inr (mapT 7 (scalarE StringT) (scalarE Int32T))"
  by (simp add: ex_map_defs run_defs monad_defs cell_def)

text \<open>The steps of the state monad applied to a state: with these the hydration of an
  example is evaluated from its start state onwards.\<close>

lemma exec_defs:
  "bind m f s = (case m s of Inl e \<Rightarrow> Inl e | Inr (x, s') \<Rightarrow> f x s')"
  "return x s = Inr (x, s)"
  "gets g s = Inr (g s, s)"
  "modify h s = Inr ((), h s)"
  "lift l s = (case l s of Inl e \<Rightarrow> Inl e | Inr y \<Rightarrow> Inr (y, s))"
  "throw e s = Inl e"
  "alloc ob s = Inr (length (objs s), s\<lparr>objs := objs s @ [ob]\<rparr>)"
  "update r u s = Inr ((), s\<lparr>objs := (objs s)[r := u (objs s ! r)]\<rparr>)"
  "add r s = Inr ((), s\<lparr>entities := (entities s)(resolveFQN (objs s) r \<mapsto> r)\<rparr>)"
  by (simp_all add: monad_defs split: sum.splits)

lemma ex_map_run: "ProcessDescriptors ex_map_request = Inr ex_map_graph"
  by (simp add: ex_map_request_def ex_map_file_def ex_map_defs
        run_defs exec_defs andThen_def Let_def fqn_defs eval_nat_numeral)

lemma ex_doc_run: "ProcessDescriptors ex_doc_request = Inr ex_doc_graph"
  by (simp add: ex_doc_request_def ex_doc_file_def ex_b_file_def ex_items_field_def
        ex_doc_graph_def ex_doc_state_def ex_package_loc_def ex_field_loc_def ex_other_loc_def
        child_def packagePath_def syntaxPath_def messageTypePath_def messageTypeFieldPath_def
        enumTypePath_def servicePath_def
        run_defs exec_defs andThen_def Let_def fqn_defs eval_nat_numeral)

lemma ex_far_run: "ProcessDescriptors ex_far_request = Inl (Panic NilDereference)"
  by (simp add: ex_far_request_def ex_far_file_def ex_far_field_def ex_map_defs
        run_defs exec_defs andThen_def Let_def fqn_defs eval_nat_numeral)

lemma ex_deep_run: "ProcessDescriptors ex_deep_request = Inr ex_deep_graph"
  by (simp add: ex_deep_request_def ex_deep_file_def ex_deep_graph_def ex_group_field_def
        run_defs exec_defs andThen_def Let_def fqn_defs eval_nat_numeral)

lemma ex_bc_run: "ProcessDescriptors ex_bc_request = Inr ex_bc_graph"
  by (simp add: ex_bc_request_def ex_b_file_def ex_c_file_def ex_ref_field_def
        ex_kind_field_def ex_call_method_def ex_bc_graph_def
        run_defs exec_defs andThen_def Let_def fqn_defs eval_nat_numeral)

lemma ex_bc_wellFormed: "wellFormed ex_bc_graph"
  by (simp add: wellFormed_def hydrated_def ex_bc_graph_def isEntity_def fqn_defs upt_rec
        ex_b_file_def ex_c_file_def ex_ref_field_def ex_kind_field_def ex_call_method_def
        eval_nat_numeral)

subsection \<open>C1: FQN round-trip\<close>

text \<open>
  C1. For every entity hydrated from a well-formed descriptor batch (no two hydrated
  entities share a resolved FQN), \<open>Lookup\<close> applied to the resolved FQN of the entity
  (the path for a File, the dot-qualified name for every other entity) returns that
  very object, the same address in the store, together with \<open>found = True\<close>.
\<close>

theorem Lookup_round_trip:
  assumes "ProcessDescriptors req = Inr g" and "wellFormed g"
    and "e < length (objs g)" and "isEntity (objs g ! e)"
  shows "Lookup g (resolveFQN (objs g) e) = (Some e, True)"
proof -
  have inv: "registry_inv g"
    using assms(1) by (rule registry_inv_ProcessDescriptors)
  then obtain r where r: "entities g (resolveFQN (objs g) e) = Some r"
    using assms(3,4) unfolding registry_inv_def by blast
  with inv have "r < length (objs g)" "isEntity (objs g ! r)"
    "resolveFQN (objs g) r = resolveFQN (objs g) e"
    unfolding registry_inv_def by blast+
  moreover have "inj_on (resolveFQN (objs g)) (set (hydrated (objs g)))"
    using assms(2) by (simp add: wellFormed_def distinct_map)
  ultimately have "r = e"
    using assms(3,4) by (auto simp: inj_on_def hydrated_iff)
  with r show ?thesis
    by (simp add: Lookup_def)
qed

theorem Lookup_round_trip_witness:
  "ProcessDescriptors ex_enum_request = Inr ex_enum_graph \<and> wellFormed ex_enum_graph
   \<and> 2 < length (objs ex_enum_graph) \<and> isEntity (objs ex_enum_graph ! 2)
   \<and> resolveFQN (objs ex_enum_graph) 2 = ''.x.E''
   \<and> Lookup ex_enum_graph ''.x.E'' = (Some 2, True)"
proof -
  have a: "2 < length (objs ex_enum_graph)" "isEntity (objs ex_enum_graph ! 2)"
    by (simp_all add: ex_enum_graph_def isEntity_def)
  have b: "resolveFQN (objs ex_enum_graph) 2 = ''.x.E''"
    by (simp add: ex_enum_graph_def fqn_defs ex_enum_file_def)
  show ?thesis
    using Lookup_round_trip[OF ex_enum_run ex_enum_wellFormed a] a b ex_enum_run
      ex_enum_wellFormed
    by simp
qed

subsection \<open>C2: cross-reference identity\<close>

text \<open>
  C2. A cross-reference is a pointer to the object that the registry holds under the
  FQN. The enum or the message of the type that \<^verbatim>\<open>hydrateEnumFieldType\<close> or
  \<^verbatim>\<open>hydrateEmbedFieldType\<close> returns is the entity that \<open>Lookup\<close> finds under the type name
  of the field, and the input and the output that \<^verbatim>\<open>hydrateMethod\<close> stores are the messages
  that \<open>Lookup\<close> finds under the two type names of the method. In every graph that
  \<^verbatim>\<open>ProcessDescriptors\<close> returns, the enum or message a field type points to (directly or as
  the element of a repeated type) and the input and output of a method are an enum or a
  message of the store whose resolved FQN is the type name; when the batch is well formed
  (no two hydrated entities share a resolved FQN), \<open>Lookup\<close> of the type name returns that
  very object. So a field of a file processed later holds the same message object as
  the file that declares the message.
\<close>

theorem cross_reference_identity:
  "(hydrateEnumFieldType g s = Inr t \<longrightarrow>
      (\<exists>e x. t = enumT (fld s) e \<and> cell (objs g) e = Some (Enum x) \<and>
         Lookup g (fdp_type_name (Descriptor (objs g) (fld s))) = (Some e, True)))
   \<and> (hydrateEmbedFieldType g s = Inr t \<longrightarrow>
      (\<exists>m x. t = embedT (fld s) m \<and> cell (objs g) m = Some (Msg x) \<and>
         Lookup g (fdp_type_name (Descriptor (objs g) (fld s))) = (Some m, True)))
   \<and> (hydrateMethod sv md g = Inr (r, g') \<longrightarrow>
      (\<exists>i out x y.
         cell (objs g') r = Some (Method \<lparr>mth_desc = md, mth_service = sv, mth_in = Some i,
                                         mth_out = Some out, mth_info = None\<rparr>) \<and>
         cell (objs g') i = Some (Msg x) \<and> cell (objs g') out = Some (Msg y) \<and>
         Lookup g' (md_input_type md) = (Some i, True) \<and>
         Lookup g' (md_output_type md) = (Some out, True)))
   \<and> (ProcessDescriptors req = Inr G \<longrightarrow>
      (\<forall>a x t. cell (objs G) a = Some (Field x) \<longrightarrow> field_typ x = Some t \<longrightarrow>
         (\<forall>f e. t = enumT f e \<or> (\<exists>p. t = repT f (enumE p e)) \<longrightarrow>
            (\<exists>y. cell (objs G) e = Some (Enum y)) \<and>
            resolveFQN (objs G) e = fdp_type_name (field_desc x) \<and>
            (wellFormed G \<longrightarrow> Lookup G (fdp_type_name (field_desc x)) = (Some e, True))) \<and>
         (\<forall>f m. t = embedT f m \<or> (\<exists>p. t = repT f (embedE p m)) \<longrightarrow>
            (\<exists>y. cell (objs G) m = Some (Msg y)) \<and>
            resolveFQN (objs G) m = fdp_type_name (field_desc x) \<and>
            (wellFormed G \<longrightarrow> Lookup G (fdp_type_name (field_desc x)) = (Some m, True)))) \<and>
      (\<forall>a x. cell (objs G) a = Some (Method x) \<longrightarrow>
         (\<forall>i. mth_in x = Some i \<longrightarrow>
            (\<exists>y. cell (objs G) i = Some (Msg y)) \<and>
            resolveFQN (objs G) i = md_input_type (mth_desc x) \<and>
            (wellFormed G \<longrightarrow> Lookup G (md_input_type (mth_desc x)) = (Some i, True))) \<and>
         (\<forall>out. mth_out x = Some out \<longrightarrow>
            (\<exists>y. cell (objs G) out = Some (Msg y)) \<and>
            resolveFQN (objs G) out = md_output_type (mth_desc x) \<and>
            (wellFormed G \<longrightarrow> Lookup G (md_output_type (mth_desc x)) = (Some out, True)))))"
proof (intro conjI impI)
  assume "hydrateEnumFieldType g s = Inr t"
  then show "\<exists>e x. t = enumT (fld s) e \<and> cell (objs g) e = Some (Enum x) \<and>
         Lookup g (fdp_type_name (Descriptor (objs g) (fld s))) = (Some e, True)"
    by (auto simp: hydrateEnumFieldType_def andThen_Inr mustSeen_def assertEnum_def Lookup_def
          split: option.splits obj.splits)
next
  assume "hydrateEmbedFieldType g s = Inr t"
  then show "\<exists>m x. t = embedT (fld s) m \<and> cell (objs g) m = Some (Msg x) \<and>
         Lookup g (fdp_type_name (Descriptor (objs g) (fld s))) = (Some m, True)"
    by (auto simp: hydrateEmbedFieldType_def andThen_Inr mustSeen_def assertMessage_def
          Lookup_def split: option.splits obj.splits)
next
  assume run: "hydrateMethod sv md g = Inr (r, g')"
  let ?M = "\<lambda>i out. Method \<lparr>mth_desc = md, mth_service = sv, mth_in = i, mth_out = out,
                             mth_info = None\<rparr>"
  let ?m = "length (objs g)"
  let ?h1 = "objs g @ [?M None None]"
  let ?s2 = "g\<lparr>objs := ?h1, entities := (entities g)(resolveFQN ?h1 ?m \<mapsto> ?m)\<rparr>"
  from run obtain e i e' out where
    a: "mustSeen ?s2 (md_input_type md) = Inr e" "assertMessage ?s2 e = Inr i"
    and b: "mustSeen (?s2\<lparr>objs := ?h1[?m := ?M (Some i) None]\<rparr>) (md_output_type md) = Inr e'"
      "assertMessage (?s2\<lparr>objs := ?h1[?m := ?M (Some i) None]\<rparr>) e' = Inr out"
    and s': "g' = ?s2\<lparr>objs := ?h1[?m := ?M (Some i) (Some out)]\<rparr>" and r: "r = ?m"
    unfolding hydrateMethod_def bind_Inr alloc_Inr add_Inr lift_Inr andThen_Inr
      method_setIn_def method_setOut_def update_Inr return_Inr
    by auto
  have i: "i = e" "i < Suc ?m" "\<exists>x. (?h1[?m := ?M (Some i) (Some out)]) ! i = Msg x"
    using a(2) by (auto simp: assertMessage_def cell_def nth_append nth_list_update_read
        split: if_splits obj.splits)
  have o: "out = e'" "out < Suc ?m" "\<exists>x. (?h1[?m := ?M (Some i) (Some out)]) ! out = Msg x"
    using b(2) by (auto simp: assertMessage_def cell_def nth_append nth_list_update_read
        split: if_splits obj.splits)
  have l: "Lookup g' (md_input_type md) = (Some i, True)"
    "Lookup g' (md_output_type md) = (Some out, True)"
    using a(1) b(1) i(1) o(1) unfolding s'
    by (auto simp: mustSeen_def Lookup_def split: option.splits if_splits)
  show "\<exists>i out x y.
         cell (objs g') r = Some (Method \<lparr>mth_desc = md, mth_service = sv, mth_in = Some i,
                                         mth_out = Some out, mth_info = None\<rparr>) \<and>
         cell (objs g') i = Some (Msg x) \<and> cell (objs g') out = Some (Msg y) \<and>
         Lookup g' (md_input_type md) = (Some i, True) \<and>
         Lookup g' (md_output_type md) = (Some out, True)"
    using l i(2,3) o(2,3) unfolding r by (auto simp: s' cell_Some)
next
  assume run: "ProcessDescriptors req = Inr G"
  have reg: "registry_inv G" using run by (rule registry_inv_ProcessDescriptors)
  have inv: "xref_inv G" using run by (rule xref_inv_ProcessDescriptors)
  note L = named_lookup[OF reg]
  have lk: "linked (objs G) ob" if "cell (objs G) a = Some ob" for a ob
    using inv that by (auto simp: xref_inv_def cell_Some)
  show "\<forall>a x t. cell (objs G) a = Some (Field x) \<longrightarrow> field_typ x = Some t \<longrightarrow>
         (\<forall>f e. t = enumT f e \<or> (\<exists>p. t = repT f (enumE p e)) \<longrightarrow>
            (\<exists>y. cell (objs G) e = Some (Enum y)) \<and>
            resolveFQN (objs G) e = fdp_type_name (field_desc x) \<and>
            (wellFormed G \<longrightarrow> Lookup G (fdp_type_name (field_desc x)) = (Some e, True))) \<and>
         (\<forall>f m. t = embedT f m \<or> (\<exists>p. t = repT f (embedE p m)) \<longrightarrow>
            (\<exists>y. cell (objs G) m = Some (Msg y)) \<and>
            resolveFQN (objs G) m = fdp_type_name (field_desc x) \<and>
            (wellFormed G \<longrightarrow> Lookup G (fdp_type_name (field_desc x)) = (Some m, True)))"
  proof (intro allI impI)
    fix a x t assume "cell (objs G) a = Some (Field x)" "field_typ x = Some t"
    then have t: "linkedType (objs G) (fdp_type_name (field_desc x)) t"
      using lk[of a "Field x"] by (simp add: linked_def)
    show "(\<forall>f e. t = enumT f e \<or> (\<exists>p. t = repT f (enumE p e)) \<longrightarrow>
            (\<exists>y. cell (objs G) e = Some (Enum y)) \<and>
            resolveFQN (objs G) e = fdp_type_name (field_desc x) \<and>
            (wellFormed G \<longrightarrow> Lookup G (fdp_type_name (field_desc x)) = (Some e, True))) \<and>
         (\<forall>f m. t = embedT f m \<or> (\<exists>p. t = repT f (embedE p m)) \<longrightarrow>
            (\<exists>y. cell (objs G) m = Some (Msg y)) \<and>
            resolveFQN (objs G) m = fdp_type_name (field_desc x) \<and>
            (wellFormed G \<longrightarrow> Lookup G (fdp_type_name (field_desc x)) = (Some m, True)))"
    proof (intro conjI allI impI)
      fix f e assume "t = enumT f e \<or> (\<exists>p. t = repT f (enumE p e))"
      with t have n: "enumNamed (objs G) (fdp_type_name (field_desc x)) e"
        by (auto simp: linkedType_def linkedElem_def)
      then show "\<exists>y. cell (objs G) e = Some (Enum y)"
        "resolveFQN (objs G) e = fdp_type_name (field_desc x)"
        by (simp_all add: enumNamed_def)
      show "Lookup G (fdp_type_name (field_desc x)) = (Some e, True)" if "wellFormed G"
        using L(1)[OF that n] .
    next
      fix f m assume "t = embedT f m \<or> (\<exists>p. t = repT f (embedE p m))"
      with t have n: "msgNamed (objs G) (fdp_type_name (field_desc x)) m"
        by (auto simp: linkedType_def linkedElem_def)
      then show "\<exists>y. cell (objs G) m = Some (Msg y)"
        "resolveFQN (objs G) m = fdp_type_name (field_desc x)"
        by (simp_all add: msgNamed_def)
      show "Lookup G (fdp_type_name (field_desc x)) = (Some m, True)" if "wellFormed G"
        using L(2)[OF that n] .
    qed
  qed
  show "\<forall>a x. cell (objs G) a = Some (Method x) \<longrightarrow>
         (\<forall>i. mth_in x = Some i \<longrightarrow>
            (\<exists>y. cell (objs G) i = Some (Msg y)) \<and>
            resolveFQN (objs G) i = md_input_type (mth_desc x) \<and>
            (wellFormed G \<longrightarrow> Lookup G (md_input_type (mth_desc x)) = (Some i, True))) \<and>
         (\<forall>out. mth_out x = Some out \<longrightarrow>
            (\<exists>y. cell (objs G) out = Some (Msg y)) \<and>
            resolveFQN (objs G) out = md_output_type (mth_desc x) \<and>
            (wellFormed G \<longrightarrow> Lookup G (md_output_type (mth_desc x)) = (Some out, True)))"
  proof (intro allI impI conjI)
    fix a x i assume "cell (objs G) a = Some (Method x)" "mth_in x = Some i"
    then have n: "msgNamed (objs G) (md_input_type (mth_desc x)) i"
      using lk[of a "Method x"] by (simp add: linked_def)
    then show "\<exists>y. cell (objs G) i = Some (Msg y)"
      "resolveFQN (objs G) i = md_input_type (mth_desc x)"
      by (simp_all add: msgNamed_def)
    show "Lookup G (md_input_type (mth_desc x)) = (Some i, True)" if "wellFormed G"
      using L(2)[OF that n] .
  next
    fix a x out assume "cell (objs G) a = Some (Method x)" "mth_out x = Some out"
    then have n: "msgNamed (objs G) (md_output_type (mth_desc x)) out"
      using lk[of a "Method x"] by (simp add: linked_def)
    then show "\<exists>y. cell (objs G) out = Some (Msg y)"
      "resolveFQN (objs G) out = md_output_type (mth_desc x)"
      by (simp_all add: msgNamed_def)
    show "Lookup G (md_output_type (mth_desc x)) = (Some out, True)" if "wellFormed G"
      using L(2)[OF that n] .
  qed
qed

theorem cross_reference_identity_witness:
  "ProcessDescriptors ex_bc_request = Inr ex_bc_graph \<and> wellFormed ex_bc_graph
   \<and> cell (objs ex_bc_graph) 6
       = Some (Field \<lparr>field_desc = ex_ref_field, field_msg = 5, field_typ = Some (embedT 6 2),
                       field_info = None\<rparr>)
   \<and> fdp_type_name ex_ref_field = ''.x.B''
   \<and> (\<exists>y. cell (objs ex_bc_graph) 2 = Some (Msg y))
   \<and> resolveFQN (objs ex_bc_graph) 2 = ''.x.B''
   \<and> Lookup ex_bc_graph ''.x.B'' = (Some 2, True)
   \<and> (\<exists>x. cell (objs ex_bc_graph) 1 = Some (File x) \<and> file_desc x = ex_b_file \<and>
          file_msgs x = [2])
   \<and> cell (objs ex_bc_graph) 7
       = Some (Field \<lparr>field_desc = ex_kind_field, field_msg = 5, field_typ = Some (enumT 7 4),
                       field_info = None\<rparr>)
   \<and> Lookup ex_bc_graph ''.x.K'' = (Some 4, True)
   \<and> cell (objs ex_bc_graph) 9
       = Some (Method \<lparr>mth_desc = ex_call_method, mth_service = 8, mth_in = Some 2,
                        mth_out = Some 5, mth_info = None\<rparr>)
   \<and> Lookup ex_bc_graph ''.x.C'' = (Some 5, True)
   \<and> hydrateEmbedFieldType ex_bc_graph (scalarT 6) = Inr (embedT 6 2)
   \<and> hydrateEnumFieldType ex_bc_graph (scalarT 7) = Inr (enumT 7 4)
   \<and> (\<exists>g'. hydrateMethod 8 ex_call_method ex_bc_graph = Inr (10, g') \<and>
          cell (objs g') 10
            = Some (Method \<lparr>mth_desc = ex_call_method, mth_service = 8, mth_in = Some 2,
                             mth_out = Some 5, mth_info = None\<rparr>) \<and>
          Lookup g' ''.x.B'' = (Some 2, True) \<and> Lookup g' ''.x.C'' = (Some 5, True))"
proof -
  let ?G = ex_bc_graph
  have c: "cell (objs ?G) 6
       = Some (Field \<lparr>field_desc = ex_ref_field, field_msg = 5, field_typ = Some (embedT 6 2),
                       field_info = None\<rparr>)"
    "cell (objs ?G) 7
       = Some (Field \<lparr>field_desc = ex_kind_field, field_msg = 5, field_typ = Some (enumT 7 4),
                       field_info = None\<rparr>)"
    "cell (objs ?G) 9
       = Some (Method \<lparr>mth_desc = ex_call_method, mth_service = 8, mth_in = Some 2,
                        mth_out = Some 5, mth_info = None\<rparr>)"
    "\<exists>x. cell (objs ?G) 1 = Some (File x) \<and> file_desc x = ex_b_file \<and> file_msgs x = [2]"
    by (simp_all add: ex_bc_graph_def cell_def)
  have n: "fdp_type_name ex_ref_field = ''.x.B''" "fdp_type_name ex_kind_field = ''.x.K''"
    "md_input_type ex_call_method = ''.x.B''" "md_output_type ex_call_method = ''.x.C''"
    by (simp_all add: ex_ref_field_def ex_kind_field_def ex_call_method_def)
  note T = cross_reference_identity[of _ _ _ _ _ _ _ ex_bc_request ?G, THEN conjunct2,
      THEN conjunct2, THEN conjunct2, rule_format, OF ex_bc_run]
  have f6: "(\<exists>y. cell (objs ?G) 2 = Some (Msg y)) \<and> resolveFQN (objs ?G) 2 = ''.x.B'' \<and>
      Lookup ?G ''.x.B'' = (Some 2, True)"
    using T[THEN conjunct1, rule_format, OF c(1), THEN conjunct2, rule_format, of "embedT 6 2" 6 2]
      ex_bc_wellFormed n by simp
  have f7: "Lookup ?G ''.x.K'' = (Some 4, True)"
    using T[THEN conjunct1, rule_format, OF c(2), THEN conjunct1, rule_format, of "enumT 7 4" 7 4]
      ex_bc_wellFormed n by simp
  have f9: "Lookup ?G ''.x.C'' = (Some 5, True)"
    using T[THEN conjunct2, rule_format, OF c(3), THEN conjunct2, rule_format, of 5]
      ex_bc_wellFormed n by simp
  have e: "hydrateEmbedFieldType ?G (scalarT 6) = Inr (embedT 6 2)"
    "hydrateEnumFieldType ?G (scalarT 7) = Inr (enumT 7 4)"
    by (simp_all add: ex_bc_graph_def ex_ref_field_def ex_kind_field_def
          hydrateEmbedFieldType_def hydrateEnumFieldType_def mustSeen_def assertMessage_def
          assertEnum_def andThen_def Descriptor_def cell_def)
  obtain g' where m: "hydrateMethod 8 ex_call_method ?G = Inr (10, g')"
    by (simp add: ex_bc_graph_def ex_call_method_def hydrateMethod_def exec_defs mustSeen_def
          assertMessage_def andThen_def method_setIn_def method_setOut_def fqn_defs
          eval_nat_numeral)
  have fm: "cell (objs g') 10
            = Some (Method \<lparr>mth_desc = ex_call_method, mth_service = 8, mth_in = Some 2,
                             mth_out = Some 5, mth_info = None\<rparr>) \<and>
          Lookup g' ''.x.B'' = (Some 2, True) \<and> Lookup g' ''.x.C'' = (Some 5, True)"
  proof -
    from cross_reference_identity[of ?G _ _ 8 ex_call_method 10 g', THEN conjunct2,
        THEN conjunct2, THEN conjunct1, rule_format, OF m]
    obtain i out where
      x: "cell (objs g') 10 = Some (Method \<lparr>mth_desc = ex_call_method, mth_service = 8,
            mth_in = Some i, mth_out = Some out, mth_info = None\<rparr>)"
      "Lookup g' (md_input_type ex_call_method) = (Some i, True)"
      "Lookup g' (md_output_type ex_call_method) = (Some out, True)"
      by blast
    have "entities g' ''.x.B'' = Some 2" "entities g' ''.x.C'' = Some 5"
      using m[symmetric]
      by (simp_all add: ex_bc_graph_def ex_call_method_def hydrateMethod_def exec_defs
            mustSeen_def assertMessage_def andThen_def method_setIn_def method_setOut_def
            fqn_defs eval_nat_numeral)
    then have "i = 2" "out = 5"
      using x(2,3) n by (simp_all add: Lookup_def)
    with x n show ?thesis by simp
  qed
  show ?thesis
    using ex_bc_run ex_bc_wellFormed c n(1) f6 f7 f9 e m fm by blast
qed

subsection \<open>C3: map shape\<close>

text \<open>
  C3 (amended). For a field labelled repeated whose type is a message, registered under
  the type name of the field and marked as a map entry, the classifier is
  \<^verbatim>\<open>hydrateMapFieldType\<close>: whatever it returns is a map type of that field whose key is
  the element of the type of the first field of the entry and whose value is the element
  of the type of the second field. It does return it when the entry has its two fields,
  both already classified with a type that has an element form; when the entry has no
  field the first read panics (index out of range), and when its first field carries no
  type yet the classifier panics (nil dereference). A nested message that has just been
  hydrated is added to the map entries of its parent when it is flagged as a map entry
  and to the nested messages otherwise, never to both; and in the graph that
  \<^verbatim>\<open>ProcessDescriptors\<close> returns no nested message of a message is a map entry and every
  map entry of a message is one.
\<close>

theorem map_shape:
  "(ProtoLabel (objs g) (scalarT f) = Repeated \<longrightarrow> ProtoType (objs g) (scalarT f) = MessageT \<longrightarrow>
      entities g (fdp_type_name (Descriptor (objs g) f)) = Some e \<longrightarrow> IsMapEntry (objs g) e \<longrightarrow>
        hydrateFieldType g f
          = andThen (elemOfField g e 0) (\<lambda>key.
            andThen (elemOfField g e 1) (\<lambda>el. Inr (mapT f key el))) \<and>
        (\<forall>t. hydrateFieldType g f = Inr t \<longrightarrow>
           (\<exists>key el. t = mapT f key el \<and> elemOfField g e 0 = Inr key \<and>
              elemOfField g e 1 = Inr el)) \<and>
        (\<forall>f0 f1 rest t0 t1 key el.
           Fields (objs g) e = f0 # f1 # rest \<longrightarrow>
           Type (objs g) f0 = Some t0 \<longrightarrow> Type (objs g) f1 = Some t1 \<longrightarrow>
           toElem (objs g) t0 = Inr key \<longrightarrow> toElem (objs g) t1 = Inr el \<longrightarrow>
             hydrateFieldType g f = Inr (mapT f key el)) \<and>
        (Fields (objs g) e = [] \<longrightarrow> hydrateFieldType g f = Inl (Panic IndexOutOfRange)) \<and>
        (\<forall>f0 rest. Fields (objs g) e = f0 # rest \<longrightarrow> Type (objs g) f0 = None \<longrightarrow>
           hydrateFieldType g f = Inl (Panic NilDereference)))
   \<and> addNested m nm s
       = update m (\<lambda>ob. case ob of
                     Msg x \<Rightarrow>
                       Msg (if IsMapEntry (objs s) nm then x\<lparr>msg_maps := msg_maps x @ [nm]\<rparr>
                            else x\<lparr>msg_msgs := msg_msgs x @ [nm]\<rparr>)
                   | _ \<Rightarrow> ob) s
   \<and> (ProcessDescriptors req = Inr g' \<longrightarrow> cell (objs g') a = Some (Msg y) \<longrightarrow>
        (\<forall>c \<in> set (msg_msgs y). \<not> IsMapEntry (objs g') c) \<and>
        (\<forall>c \<in> set (msg_maps y). IsMapEntry (objs g') c))"
proof (intro conjI impI)
  assume l: "ProtoLabel (objs g) (scalarT f) = Repeated"
    and t: "ProtoType (objs g) (scalarT f) = MessageT"
    and r: "entities g (fdp_type_name (Descriptor (objs g) f)) = Some e"
    and me: "IsMapEntry (objs g) e"
  from me have "assertMessage g e = Inr e"
    by (auto simp: IsMapEntry_def assertMessage_def split: option.splits obj.splits)
  then show eq: "hydrateFieldType g f
          = andThen (elemOfField g e 0) (\<lambda>key.
            andThen (elemOfField g e 1) (\<lambda>el. Inr (mapT f key el)))"
    using l t r me
    by (simp add: hydrateFieldType_def hydrateRepeatedFieldType_def hydrateMapFieldType_def
          mustSeen_def andThen_def Let_def split: sum.splits)
  show "\<forall>t. hydrateFieldType g f = Inr t \<longrightarrow>
           (\<exists>key el. t = mapT f key el \<and> elemOfField g e 0 = Inr key \<and>
              elemOfField g e 1 = Inr el)"
    unfolding eq by (auto simp: andThen_def split: sum.splits)
  show "\<forall>f0 f1 rest t0 t1 key el.
           Fields (objs g) e = f0 # f1 # rest \<longrightarrow>
           Type (objs g) f0 = Some t0 \<longrightarrow> Type (objs g) f1 = Some t1 \<longrightarrow>
           toElem (objs g) t0 = Inr key \<longrightarrow> toElem (objs g) t1 = Inr el \<longrightarrow>
             hydrateFieldType g f = Inr (mapT f key el)"
    unfolding eq by (simp add: elemOfField_def andThen_def Let_def)
  show "hydrateFieldType g f = Inl (Panic IndexOutOfRange)" if "Fields (objs g) e = []"
    unfolding eq using that by (simp add: elemOfField_def andThen_def Let_def)
  show "\<forall>f0 rest. Fields (objs g) e = f0 # rest \<longrightarrow> Type (objs g) f0 = None \<longrightarrow>
           hydrateFieldType g f = Inl (Panic NilDereference)"
    unfolding eq by (simp add: elemOfField_def andThen_def Let_def)
next
  show "addNested m nm s
       = update m (\<lambda>ob. case ob of
                     Msg x \<Rightarrow>
                       Msg (if IsMapEntry (objs s) nm then x\<lparr>msg_maps := msg_maps x @ [nm]\<rparr>
                            else x\<lparr>msg_msgs := msg_msgs x @ [nm]\<rparr>)
                   | _ \<Rightarrow> ob) s"
    by (cases "objs s ! m")
       (simp_all add: addNested_def addMapEntry_def msg_addMessage_def bind_def gets_def
          update_def modify_def)
next
  assume "ProcessDescriptors req = Inr g'" "cell (objs g') a = Some (Msg y)"
  then show "\<forall>c \<in> set (msg_msgs y). \<not> IsMapEntry (objs g') c"
    "\<forall>c \<in> set (msg_maps y). IsMapEntry (objs g') c"
    using map_inv_ProcessDescriptors unfolding map_inv_def by blast+
qed

theorem map_shape_witness:
  "ProtoLabel (objs (ex_map_state (Some (scalarT 4)) (Some (scalarT 5)) None)) (scalarT 7) = Repeated
   \<and> entities (ex_map_state (Some (scalarT 4)) (Some (scalarT 5)) None) ''.x.M.FooEntry'' = Some 3
   \<and> IsMapEntry (objs (ex_map_state (Some (scalarT 4)) (Some (scalarT 5)) None)) 3
   \<and> Fields (objs (ex_map_state (Some (scalarT 4)) (Some (scalarT 5)) None)) 3 = [4, 5]
   \<and> hydrateFieldType (ex_map_state (Some (scalarT 4)) (Some (scalarT 5)) None) 7
       = Inr (mapT 7 (scalarE StringT) (scalarE Int32T))
   \<and> ProcessDescriptors ex_map_request = Inr ex_map_graph
   \<and> (\<exists>y. cell (objs ex_map_graph) 2 = Some (Msg y) \<and> msg_msgs y = [6] \<and> msg_maps y = [3])
   \<and> \<not> IsMapEntry (objs ex_map_graph) 6
   \<and> IsMapEntry (objs ex_map_graph) 3"
proof -
  let ?mid = "ex_map_state (Some (scalarT 4)) (Some (scalarT 5)) None"
  have a: "ProtoLabel (objs ?mid) (scalarT 7) = Repeated"
    "ProtoType (objs ?mid) (scalarT 7) = MessageT"
    "fdp_type_name (Descriptor (objs ?mid) 7) = ''.x.M.FooEntry''"
    "entities ?mid ''.x.M.FooEntry'' = Some 3"
    "IsMapEntry (objs ?mid) 3"
    by (simp_all add: ex_map_defs ProtoLabel_def ProtoType_def Descriptor_def IsMapEntry_def
          cell_def)
  have t: "Type (objs ?mid) 4 = Some (scalarT 4)" "Type (objs ?mid) 5 = Some (scalarT 5)"
    "toElem (objs ?mid) (scalarT 4) = Inr (scalarE StringT)"
    "toElem (objs ?mid) (scalarT 5) = Inr (scalarE Int32T)"
    by (simp_all add: ex_map_defs Type_def toElem_def ProtoType_def Descriptor_def cell_def)
  have r: "entities ?mid (fdp_type_name (Descriptor (objs ?mid) 7)) = Some 3"
    using a(3,4) by simp
  have "Fields (objs ?mid) 3 = 4 # 5 # [] \<longrightarrow>
      Type (objs ?mid) 4 = Some (scalarT 4) \<longrightarrow> Type (objs ?mid) 5 = Some (scalarT 5) \<longrightarrow>
      toElem (objs ?mid) (scalarT 4) = Inr (scalarE StringT) \<longrightarrow>
      toElem (objs ?mid) (scalarT 5) = Inr (scalarE Int32T) \<longrightarrow>
        hydrateFieldType ?mid 7 = Inr (mapT 7 (scalarE StringT) (scalarE Int32T))"
    using map_shape[of ?mid 7 3] a(1,2) r a(5) by blast
  then have b: "hydrateFieldType ?mid 7 = Inr (mapT 7 (scalarE StringT) (scalarE Int32T))"
    using t ex_map_lists(2) by simp
  obtain y where y: "cell (objs ex_map_graph) 2 = Some (Msg y)" "msg_msgs y = [6]"
    "msg_maps y = [3]"
    by (simp add: ex_map_graph_def ex_map_state_def cell_def)
  have c: "\<not> IsMapEntry (objs ex_map_graph) 6" "IsMapEntry (objs ex_map_graph) 3"
    using map_shape[of _ _ _ _ _ _ ex_map_request ex_map_graph 2 y] ex_map_run y by simp_all
  show ?thesis
    using a(1,4,5) ex_map_lists(2) b ex_map_run y c by blast
qed

theorem map_shape_counterexample:
  "fdp_label ex_far_field = Repeated \<and> fdp_type ex_far_field = MessageT
   \<and> fdp_type_name ex_far_field = ''.x.M.FooEntry''
   \<and> dp_name ex_entry_msg = ''FooEntry'' \<and> dp_map_entry ex_entry_msg
   \<and> dp_field ex_entry_msg = [ex_key_field, ex_value_field]
   \<and> ProcessDescriptors ex_far_request = Inl (Panic NilDereference)"
  using ex_far_run by (simp add: ex_far_field_def ex_entry_msg_def)

subsection \<open>C4: classification order\<close>

text \<open>
  C4. The classifier tests, in this order: (1) the group type, which fails fatally
  with no FieldType; (2) otherwise the repeated label, which gives the repeated type
  whose element mirrors the scalar, enum or message type of the field (or the map type,
  when the message is a map entry); (3) otherwise the enum type, which gives an Enum
  type resolved through the registry; (4) otherwise the message type, which gives an
  Embedded type resolved through the registry; (5) otherwise the Scalar type of the
  field, which carries the declared primitive kind. The theorem gives the result of
  \<open>hydrateFieldType\<close> as this decision table over the descriptor of the field and the
  registry.
\<close>

theorem classification_order:
  "hydrateFieldType g f =
     (let d = Descriptor (objs g) f;
          target = entities g (fdp_type_name d);
          missing = Inl (Failf ''expected entity %q has not been hydrated'' (fdp_type_name d))
      in
      if fdp_type d = GroupT then
        Inl (Fail ''group types are deprecated and unsupported. Use an embedded message instead.'')
      else if fdp_label d = Repeated then
        (if fdp_type d = EnumT then
           (case target of
              None \<Rightarrow> missing
            | Some e \<Rightarrow>
                (case cell (objs g) e of
                   Some (Enum x) \<Rightarrow> Inr (repT f (enumE EnumT e))
                 | _ \<Rightarrow> Inl (Panic TypeAssertion)))
         else if fdp_type d = MessageT then
           (case target of
              None \<Rightarrow> missing
            | Some m \<Rightarrow>
                (case cell (objs g) m of
                   Some (Msg x) \<Rightarrow>
                     (if dp_map_entry (msg_desc x)
                      then hydrateMapFieldType g (repT f (scalarE MessageT)) m
                      else Inr (repT f (embedE MessageT m)))
                 | _ \<Rightarrow> Inl (Panic TypeAssertion)))
         else Inr (repT f (scalarE (fdp_type d))))
      else if fdp_type d = EnumT then
        (case target of
           None \<Rightarrow> missing
         | Some e \<Rightarrow>
             (case cell (objs g) e of
                Some (Enum x) \<Rightarrow> Inr (enumT f e)
              | _ \<Rightarrow> Inl (Panic TypeAssertion)))
      else if fdp_type d = MessageT then
        (case target of
           None \<Rightarrow> missing
         | Some m \<Rightarrow>
             (case cell (objs g) m of
                Some (Msg x) \<Rightarrow> Inr (embedT f m)
              | _ \<Rightarrow> Inl (Panic TypeAssertion)))
      else Inr (scalarT f))
   \<and> ProtoType (objs g) (scalarT f) = fdp_type (Descriptor (objs g) f)"
  by (auto simp: hydrateFieldType_def hydrateRepeatedFieldType_def hydrateEnumFieldType_def
        hydrateEmbedFieldType_def mustSeen_def assertEnum_def assertMessage_def andThen_def
        ProtoType_def ProtoLabel_def IsMapEntry_def Let_def
        split: option.splits obj.splits)

subsection \<open>C5: group rejection\<close>

text \<open>
  C5 (amended). For every field of the deprecated group kind that the classifier is applied to,
  the construction fails fatally: \<open>hydrateFieldType\<close> invokes the failure channel and
  returns no FieldType, whatever the label of the field, and so does the step of the pass
  on that field. The failure ends the pass: the loop over the messages of a file returns an
  error as soon as a message it visits has such a field, among its own fields or the
  fields of its map entries. Hence when \<open>hydrateFile\<close> returns, no message its pass
  visited has a group field, and in a graph that \<open>ProcessDescriptors\<close> returns no field
  that has a FieldType is of the group kind.
\<close>

theorem group_rejection:
  "(groupField (objs g) f \<longrightarrow>
      hydrateFieldType g f
        = Inl (Fail ''group types are deprecated and unsupported. Use an embedded message instead.'')
      \<and> classifyField f g
        = Inl (Fail ''group types are deprecated and unsupported. Use an embedded message instead.''))
   \<and> ((\<exists>m \<in> set ms. visitsGroup (objs g) m) \<longrightarrow> (\<exists>e. forRange ms classifyMessage g = Inl e))
   \<and> (\<forall>pk fd s fl. hydrateFile pk fd s = Inr (fl, g) \<longrightarrow>
         (\<forall>m \<in> set (AllMessages (objs g) fl). \<not> visitsGroup (objs g) m))
   \<and> (\<forall>req. ProcessDescriptors req = Inr g \<longrightarrow>
         (\<forall>r x. cell (objs g) r = Some (Field x) \<longrightarrow> field_typ x \<noteq> None \<longrightarrow>
            fdp_type (field_desc x) \<noteq> GroupT))"
proof (intro conjI allI impI)
  assume "groupField (objs g) f"
  then show "hydrateFieldType g f
        = Inl (Fail ''group types are deprecated and unsupported. Use an embedded message instead.'')"
    by (rule hydrateFieldType_group)
  then show "classifyField f g
        = Inl (Fail ''group types are deprecated and unsupported. Use an embedded message instead.'')"
    by (simp add: classifyField_def bind_def lift_def)
next
  assume v: "\<exists>m \<in> set ms. visitsGroup (objs g) m"
  show "\<exists>e. forRange ms classifyMessage g = Inl e"
  proof (cases "forRange ms classifyMessage g")
    case (Inl e)
    then show ?thesis by blast
  next
    case (Inr r)
    then have "forRange ms classifyMessage g = Inr ((), snd r)" by (cases r) simp
    from forRange_classifyMessage_Inr[OF this] v show ?thesis by blast
  qed
next
  fix pk fd s fl assume "hydrateFile pk fd s = Inr (fl, g)"
  then show "\<forall>m \<in> set (AllMessages (objs g) fl). \<not> visitsGroup (objs g) m"
    by (rule hydrateFile_no_group)
next
  fix req r x
  assume "ProcessDescriptors req = Inr g" "cell (objs g) r = Some (Field x)"
    "field_typ x \<noteq> None"
  then show "fdp_type (field_desc x) \<noteq> GroupT"
    using group_inv_ProcessDescriptors[of req g] unfolding group_inv_def by blast
qed

theorem group_rejection_witness:
  "groupField (objs ex_group_graph) 3
   \<and> hydrateFieldType ex_group_graph 3
       = Inl (Fail ''group types are deprecated and unsupported. Use an embedded message instead.'')
   \<and> visitsGroup (objs ex_group_graph) 2
   \<and> (\<exists>e. forRange [2] classifyMessage ex_group_graph = Inl e)
   \<and> ProcessDescriptors ex_group_request
       = Inl (Fail ''group types are deprecated and unsupported. Use an embedded message instead.'')
   \<and> hydrateFile 0 ex_b_file ex_pkg_graph = Inr (Suc 0, ex_b_graph)
   \<and> AllMessages (objs ex_b_graph) (Suc 0) = [2]
   \<and> \<not> visitsGroup (objs ex_b_graph) 2
   \<and> ProcessDescriptors ex_ab_request = Inr ex_ab_graph
   \<and> (\<exists>x. cell (objs ex_ab_graph) 5 = Some (Field x) \<and> field_typ x \<noteq> None
          \<and> fdp_type (field_desc x) \<noteq> GroupT)"
proof -
  have a: "groupField (objs ex_group_graph) 3" "visitsGroup (objs ex_group_graph) 2"
    by (simp_all add: groupField_def visitsGroup_def ex_group_graph_def ex_group_field_def
          Descriptor_def Fields_def cell_def)
  have b: "AllMessages (objs ex_b_graph) (Suc 0) = [2]"
    by (simp add: ex_b_graph_def AllMessages_def msg_AllMessages.simps cell_def eval_nat_numeral)
  have c: "\<exists>x. cell (objs ex_ab_graph) 5 = Some (Field x) \<and> field_typ x \<noteq> None"
    by (simp add: ex_ab_graph_def cell_def)
  show ?thesis
    using group_rejection[of ex_group_graph 3 "[2]"] group_rejection[of ex_b_graph 0 "[]"]
      group_rejection[of ex_ab_graph 0 "[]"] a b c ex_b_run ex_ab_run ex_group_run
    by (auto simp del: One_nat_def)
qed

theorem group_rejection_counterexample:
  "ProcessDescriptors ex_deep_request = Inr ex_deep_graph
   \<and> objs ex_deep_graph ! 5
       = Field \<lparr>field_desc = ex_group_field, field_msg = 4, field_typ = None, field_info = None\<rparr>
   \<and> fdp_type ex_group_field = GroupT
   \<and> Lookup ex_deep_graph ''.x.G.E.N.old'' = (Some 5, True)
   \<and> AllMessages (objs ex_deep_graph) 1 = [2]"
  using ex_deep_run
  by (simp add: ex_deep_graph_def ex_group_field_def Lookup_def AllMessages_def
        msg_AllMessages.simps cell_def)

subsection \<open>C6: broken reference\<close>

text \<open>
  C6. Whenever an FQN reference is resolved and the FQN is absent from the registry at
  that moment, \<^verbatim>\<open>mustSeen\<close> raises the fatal error that names the missing FQN, and so do
  the places that resolve a reference: the enum and the message type of a field,
  singular or repeated, and the input and the output type of a method (looked up after
  the method itself is registered). The resolution of a present FQN never fails: it
  returns the registered entity.
\<close>

theorem broken_reference:
  "(entities g fqn = None \<longrightarrow>
      mustSeen g fqn = Inl (Failf ''expected entity %q has not been hydrated'' fqn) \<and>
      (fdp_type_name (Descriptor (objs g) (fld s)) = fqn \<longrightarrow>
         hydrateEnumFieldType g s = Inl (Failf ''expected entity %q has not been hydrated'' fqn) \<and>
         hydrateEmbedFieldType g s = Inl (Failf ''expected entity %q has not been hydrated'' fqn) \<and>
         (ProtoType (objs g) s = EnumT \<or> ProtoType (objs g) s = MessageT \<longrightarrow>
            hydrateRepeatedFieldType g s
              = Inl (Failf ''expected entity %q has not been hydrated'' fqn))) \<and>
      (\<forall>sv md mth. mth = Method \<lparr>mth_desc = md, mth_service = sv, mth_in = None,
                                  mth_out = None, mth_info = None\<rparr> \<longrightarrow>
         resolveFQN (objs g @ [mth]) (length (objs g)) \<noteq> fqn \<longrightarrow>
           (md_input_type md = fqn \<longrightarrow>
              hydrateMethod sv md g
                = Inl (Failf ''expected entity %q has not been hydrated'' fqn)) \<and>
           (md_output_type md = fqn \<longrightarrow>
              (\<exists>e. hydrateMethod sv md g = Inl e) \<and>
              (\<forall>i x. entities g (md_input_type md) = Some i \<longrightarrow> cell (objs g) i = Some (Msg x) \<longrightarrow>
                 resolveFQN (objs g @ [mth]) (length (objs g)) \<noteq> md_input_type md \<longrightarrow>
                 hydrateMethod sv md g
                   = Inl (Failf ''expected entity %q has not been hydrated'' fqn)))))
   \<and> (\<forall>e. entities g fqn = Some e \<longrightarrow> mustSeen g fqn = Inr e)"
  by (auto simp: mustSeen_def hydrateEnumFieldType_def hydrateEmbedFieldType_def
        hydrateRepeatedFieldType_def hydrateMethod_def assertMessage_def method_setIn_def
        monad_defs cell_def nth_append
        split: sum.splits option.splits obj.splits)

theorem broken_reference_witness:
  "entities ex_orphan_graph ''.x.B'' = None
   \<and> mustSeen ex_orphan_graph ''.x.B''
       = Inl (Failf ''expected entity %q has not been hydrated'' ''.x.B'')
   \<and> fdp_type_name (Descriptor (objs ex_orphan_graph) 0) = ''.x.B''
   \<and> hydrateRepeatedFieldType ex_orphan_graph (scalarT 0)
       = Inl (Failf ''expected entity %q has not been hydrated'' ''.x.B'')
   \<and> entities ex_orphan_graph ''.x.Req'' = None
   \<and> hydrateMethod 0 ex_ping_method ex_orphan_graph
       = Inl (Failf ''expected entity %q has not been hydrated'' ''.x.Req'')
   \<and> entities ex_ab_graph ''.x.B'' = Some 2
   \<and> mustSeen ex_ab_graph ''.x.B'' = Inr 2"
proof -
  have a: "entities ex_orphan_graph ''.x.B'' = None" "entities ex_orphan_graph ''.x.Req'' = None"
    "fdp_type_name (Descriptor (objs ex_orphan_graph) (fld (scalarT 0))) = ''.x.B''"
    "ProtoType (objs ex_orphan_graph) (scalarT 0) = MessageT"
    by (simp_all add: ex_orphan_graph_def ex_items_field_def Descriptor_def ProtoType_def
          cell_def)
  have m: "resolveFQN (objs ex_orphan_graph @
             [Method \<lparr>mth_desc = ex_ping_method, mth_service = 0, mth_in = None,
                      mth_out = None, mth_info = None\<rparr>]) (length (objs ex_orphan_graph))
           \<noteq> ''.x.Req''"
    "md_input_type ex_ping_method = ''.x.Req''"
    by (simp_all add: ex_orphan_graph_def ex_ping_method_def fqn_defs ex_items_field_def)
  have b: "entities ex_ab_graph ''.x.B'' = Some 2"
    by (simp add: ex_ab_graph_def)
  show ?thesis
    using broken_reference[of ex_orphan_graph "''.x.B''" "scalarT 0"]
      broken_reference[of ex_orphan_graph "''.x.Req''" "scalarT 0"]
      broken_reference[of ex_ab_graph "''.x.B''" "scalarT 0"] a m b
    by simp
qed

subsection \<open>C7: target resolution\<close>

text \<open>
  C7. For every name in the requested file-to-generate list the target map of the
  returned graph has an entry. If some descriptor of the batch has that name as its
  path, the entry is the File hydrated from the descriptor of that name (the last one,
  should several share the name) and the build-target flag of that File is set; if no
  descriptor has the name, the entry is still the unresolved marker \<^verbatim>\<open>nil\<close>.
\<close>

theorem target_resolution:
  assumes "ProcessDescriptors req = Inr g" and "n \<in> set (file_to_generate req)"
  shows "Targets g n \<noteq> None \<and>
    ((\<exists>fd \<in> set (proto_file req). fd_name fd = n) \<longrightarrow>
       (\<exists>fl x. Targets g n = Some (Some fl) \<and> fl < length (objs g) \<and> objs g ! fl = File x \<and>
          file_desc x = last (filter (\<lambda>fd. fd_name fd = n) (proto_file req)) \<and>
          fd_name (file_desc x) = n \<and> file_buildTarget x)) \<and>
    ((\<forall>fd \<in> set (proto_file req). fd_name fd \<noteq> n) \<longrightarrow> Targets g n = Some None)"
proof -
  let ?m = "filter (\<lambda>fd. fd_name fd = n) (proto_file req)"
  have inv: "tgt_inv (file_to_generate req) (proto_file req) g"
    using assms(1) by (rule ProcessDescriptors_invs)
  then have dom: "targets g n \<noteq> None"
    and c: "case ?m of
          [] \<Rightarrow> targets g n = Some None
        | fd # fds \<Rightarrow>
            (\<exists>fl pk. targets g n = Some (Some fl) \<and> fl < length (objs g) \<and>
               descOf (objs g ! fl) = FileD (last (fd # fds)) \<and>
               fileBits (objs g ! fl) = Some (pk, True))"
    using assms(2) by (simp_all add: tgt_inv_def)
  have some: "\<exists>fl x. targets g n = Some (Some fl) \<and> fl < length (objs g) \<and> objs g ! fl = File x \<and>
          file_desc x = last ?m \<and> fd_name (file_desc x) = n \<and> file_buildTarget x"
    if "\<exists>fd \<in> set (proto_file req). fd_name fd = n"
  proof -
    from that have ne: "?m \<noteq> []"
      by (auto simp: filter_empty_conv)
    then have "last ?m \<in> set ?m" by (rule last_in_set)
    then have nm: "fd_name (last ?m) = n" by simp
    from ne c obtain fl pk where
      *: "targets g n = Some (Some fl)" "fl < length (objs g)"
         "descOf (objs g ! fl) = FileD (last ?m)" "fileBits (objs g ! fl) = Some (pk, True)"
      by (cases ?m) auto
    from *(3) obtain x where x: "objs g ! fl = File x" "file_desc x = last ?m"
      by (auto simp: descOf_FileD)
    with *(4) have "file_buildTarget x" by (simp add: fileBits_def)
    with * x nm show ?thesis by auto
  qed
  have none: "targets g n = Some None" if "\<forall>fd \<in> set (proto_file req). fd_name fd \<noteq> n"
  proof -
    from that have "?m = []" by (auto simp: filter_empty_conv)
    with c show ?thesis by simp
  qed
  show ?thesis
    using dom some none by (simp add: Targets_def)
qed

theorem target_resolution_witness:
  "ProcessDescriptors ex_ab_request = Inr ex_ab_graph
   \<and> Targets ex_ab_graph ''a.proto'' = Some (Some 3)
   \<and> (\<exists>x. objs ex_ab_graph ! 3 = File x \<and> file_desc x = ex_a_file \<and> file_buildTarget x)
   \<and> Targets ex_ab_graph ''zz.proto'' = Some None"
proof -
  have a: "''a.proto'' \<in> set (file_to_generate ex_ab_request)"
    and z: "''zz.proto'' \<in> set (file_to_generate ex_ab_request)"
    by (simp_all add: ex_ab_request_def)
  have m: "\<exists>fd \<in> set (proto_file ex_ab_request). fd_name fd = ''a.proto''"
    and l: "last (filter (\<lambda>fd. fd_name fd = ''a.proto'') (proto_file ex_ab_request)) = ex_a_file"
    and nz: "\<forall>fd \<in> set (proto_file ex_ab_request). fd_name fd \<noteq> ''zz.proto''"
    by (simp_all add: ex_ab_request_def ex_a_file_def ex_b_file_def)
  have t: "Targets ex_ab_graph ''a.proto'' = Some (Some 3)"
    by (simp add: Targets_def ex_ab_graph_def)
  show ?thesis
    using target_resolution[OF ex_ab_run a] target_resolution[OF ex_ab_run z] m l nz t ex_ab_run
    by auto
qed

subsection \<open>C8: source-location binding\<close>

lemma childAtPath_single: "childAtPath h e [n] = None"
  by simp

lemma addSourceCodeInfo_total: "\<exists>s'. addSourceCodeInfo e info s = Inr ((), s')"
  by (simp add: addSourceCodeInfo_def update_def modify_def)

lemma hydrateLocation_eq:
  "hydrateLocation f loc s =
     (if loc_path loc = [syntaxPath] then addSourceCodeInfo f loc s
      else if loc_path loc = [packagePath] then addPackageSourceCodeInfo f loc s
      else case childAtPath (objs s) f (loc_path loc) of
             None \<Rightarrow> Inr ((), s)
           | Some e \<Rightarrow> addSourceCodeInfo e loc s)"
proof (cases "loc_path loc")
  case Nil
  then show ?thesis
    by (simp add: hydrateLocation_def attachToChild_def bind_def gets_def return_def
          split: option.splits)
next
  case (Cons n ns)
  show ?thesis
  proof (cases ns)
    case Nil
    with Cons show ?thesis
      by (auto simp: hydrateLocation_def attachToChild_def bind_def gets_def return_def
            addSourceCodeInfo_def addPackageSourceCodeInfo_def update_def modify_def
            syntaxPath_def packagePath_def)
  next
    case (Cons i rest)
    with \<open>loc_path loc = n # ns\<close> show ?thesis
      by (simp add: hydrateLocation_def attachToChild_def bind_def gets_def return_def
            split: option.splits)
  qed
qed

lemma hydrateLocation_total: "\<exists>s'. hydrateLocation f loc s = Inr ((), s')"
  unfolding hydrateLocation_eq
  by (auto simp: addSourceCodeInfo_total addPackageSourceCodeInfo_def update_def modify_def
        split: option.splits)

lemma forRange_total:
  "(\<And>x s. \<exists>s'. body x s = Inr ((), s')) \<Longrightarrow> \<exists>s'. forRange xs body s = Inr ((), s')"
proof (induction xs arbitrary: s)
  case Nil
  show ?case by (simp add: return_def)
next
  case (Cons x xs)
  from Cons.prems obtain s1 where "body x s = Inr ((), s1)" by blast
  moreover from Cons.IH[OF Cons.prems] obtain s' where "forRange xs body s1 = Inr ((), s')"
    by blast
  ultimately show ?case by (simp add: bind_def)
qed

lemma hydrateLocation_bind: "hydrateLocation f loc s = Inr ((), bindLocation f s loc)"
  unfolding hydrateLocation_eq bindLocation_def
  by (simp add: addSourceCodeInfo_def addPackageSourceCodeInfo_def update_def modify_def
        withInfo_def withPackageInfo_def split: option.splits)

lemma forRange_foldl:
  "(\<And>x s. body x s = Inr ((), step s x)) \<Longrightarrow> forRange xs body s = Inr ((), foldl step s xs)"
  by (induction xs arbitrary: s) (simp_all add: return_def bind_def)

lemma hydrateSourceCodeInfo_foldl:
  "hydrateSourceCodeInfo f fd s = Inr ((), foldl (bindLocation f) s (fd_source_code_info fd))"
  unfolding hydrateSourceCodeInfo_def by (rule forRange_foldl) (rule hydrateLocation_bind)

text \<open>
  C8. \<open>hydrateSourceCodeInfo\<close> goes through the location records of the file descriptor
  in order, and its result is the graph in which every record has been bound in turn.
  For a record: a path of length one equal to the syntax field number attaches the
  record as the syntax commentary of the file; a path of length one equal to the package
  field number attaches it as the package commentary; any other path is resolved by
  walking the child structure of the File and the record is attached to the entity
  found. A path that resolves to no entity leaves the graph as it is, and
  \<open>hydrateSourceCodeInfo\<close> never fails. (A path of length one with another number is
  skipped by the code without a walk; such a path resolves to nothing.)
\<close>

theorem source_location_binding:
  "hydrateSourceCodeInfo f fd s = forRange (fd_source_code_info fd) (hydrateLocation f) s
   \<and> hydrateSourceCodeInfo f fd s
       = Inr ((), foldl (bindLocation f) s (fd_source_code_info fd))
   \<and> hydrateLocation f loc s = Inr ((), bindLocation f s loc)
   \<and> hydrateLocation f loc s =
     (if loc_path loc = [syntaxPath] then addSourceCodeInfo f loc s
      else if loc_path loc = [packagePath] then addPackageSourceCodeInfo f loc s
      else case childAtPath (objs s) f (loc_path loc) of
             None \<Rightarrow> Inr ((), s)
           | Some e \<Rightarrow> addSourceCodeInfo e loc s)
   \<and> (\<forall>x. cell (objs s) f = Some (File x) \<longrightarrow>
         addSourceCodeInfo f loc s
           = Inr ((), s\<lparr>objs := (objs s)[f := File (x\<lparr>file_syntaxInfo := Some loc\<rparr>)]\<rparr>) \<and>
         addPackageSourceCodeInfo f loc s
           = Inr ((), s\<lparr>objs := (objs s)[f := File (x\<lparr>file_packageInfo := Some loc\<rparr>)]\<rparr>))
   \<and> (\<forall>e x. cell (objs s) e = Some (Field x) \<longrightarrow>
         addSourceCodeInfo e loc s
           = Inr ((), s\<lparr>objs := (objs s)[e := Field (x\<lparr>field_info := Some loc\<rparr>)]\<rparr>))
   \<and> (\<forall>n. childAtPath (objs s) f [n] = None)
   \<and> (loc_path loc \<noteq> [syntaxPath] \<longrightarrow> loc_path loc \<noteq> [packagePath] \<longrightarrow>
        childAtPath (objs s) f (loc_path loc) = None \<longrightarrow> hydrateLocation f loc s = Inr ((), s))
   \<and> (\<exists>s'. hydrateSourceCodeInfo f fd s = Inr ((), s'))"
proof (intro conjI allI impI)
  show "hydrateSourceCodeInfo f fd s = forRange (fd_source_code_info fd) (hydrateLocation f) s"
    by (simp add: hydrateSourceCodeInfo_def)
  show "hydrateSourceCodeInfo f fd s
       = Inr ((), foldl (bindLocation f) s (fd_source_code_info fd))"
    by (rule hydrateSourceCodeInfo_foldl)
  then show "\<exists>s'. hydrateSourceCodeInfo f fd s = Inr ((), s')" by blast
  show "hydrateLocation f loc s = Inr ((), bindLocation f s loc)"
    by (rule hydrateLocation_bind)
qed (simp_all add: hydrateLocation_eq addSourceCodeInfo_def addPackageSourceCodeInfo_def
       update_def modify_def cell_def split: if_splits)

theorem source_location_binding_witness:
  "fd_source_code_info ex_doc_file = [ex_package_loc, ex_field_loc, ex_other_loc]
   \<and> hydrateLocation 3 ex_package_loc (ex_doc_state None None)
       = Inr ((), ex_doc_state (Some ex_package_loc) None)
   \<and> childAtPath (objs (ex_doc_state (Some ex_package_loc) None)) 3 (loc_path ex_field_loc)
       = Some 5
   \<and> hydrateLocation 3 ex_field_loc (ex_doc_state (Some ex_package_loc) None)
       = Inr ((), ex_doc_state (Some ex_package_loc) (Some ex_field_loc))
   \<and> childAtPath (objs (ex_doc_state (Some ex_package_loc) (Some ex_field_loc))) 3
        (loc_path ex_other_loc) = None
   \<and> hydrateLocation 3 ex_other_loc (ex_doc_state (Some ex_package_loc) (Some ex_field_loc))
       = Inr ((), ex_doc_state (Some ex_package_loc) (Some ex_field_loc))
   \<and> hydrateSourceCodeInfo 3 ex_doc_file (ex_doc_state None None)
       = Inr ((), ex_doc_state (Some ex_package_loc) (Some ex_field_loc))
   \<and> ProcessDescriptors ex_doc_request = Inr ex_doc_graph"
proof -
  let ?s0 = "ex_doc_state None None"
  let ?s1 = "ex_doc_state (Some ex_package_loc) None"
  let ?s2 = "ex_doc_state (Some ex_package_loc) (Some ex_field_loc)"
  have p: "loc_path ex_package_loc = [packagePath]" "loc_path ex_package_loc \<noteq> [syntaxPath]"
    "loc_path ex_field_loc \<noteq> [syntaxPath]" "loc_path ex_field_loc \<noteq> [packagePath]"
    "loc_path ex_other_loc \<noteq> [syntaxPath]" "loc_path ex_other_loc \<noteq> [packagePath]"
    "loc_path ex_other_loc = [9]"
    by (simp_all add: ex_package_loc_def ex_field_loc_def ex_other_loc_def packagePath_def
          syntaxPath_def)
  have c: "childAtPath (objs ?s1) 3 (loc_path ex_field_loc) = Some 5"
    by (simp add: ex_doc_state_def ex_field_loc_def child_def cell_def at_def
          messageTypePath_def messageTypeFieldPath_def)
  have b: "bindLocation 3 ?s0 ex_package_loc = ?s1" "bindLocation 3 ?s1 ex_field_loc = ?s2"
    "bindLocation 3 ?s2 ex_other_loc = ?s2"
    using p c by (simp_all add: bindLocation_def) (simp_all add: ex_doc_state_def
      withPackageInfo_def withInfo_def)
  have l: "fd_source_code_info ex_doc_file = [ex_package_loc, ex_field_loc, ex_other_loc]"
    by (simp add: ex_doc_file_def)
  have n: "childAtPath (objs ?s2) 3 (loc_path ex_other_loc) = None"
    using p(7) by simp
  have 1: "hydrateLocation 3 ex_package_loc ?s0 = Inr ((), ?s1)"
    "hydrateLocation 3 ex_field_loc ?s1 = Inr ((), ?s2)"
    using source_location_binding[of 3 ex_doc_file ?s0 ex_package_loc]
      source_location_binding[of 3 ex_doc_file ?s1 ex_field_loc] b by simp_all
  have 2: "hydrateLocation 3 ex_other_loc ?s2 = Inr ((), ?s2)"
    using source_location_binding[of 3 ex_doc_file ?s2 ex_other_loc] p(5,6) n by blast
  have "hydrateSourceCodeInfo 3 ex_doc_file ?s0
      = Inr ((), foldl (bindLocation 3) ?s0 (fd_source_code_info ex_doc_file))"
    using source_location_binding[of 3 ex_doc_file ?s0 ex_package_loc] by blast
  then have 3: "hydrateSourceCodeInfo 3 ex_doc_file ?s0 = Inr ((), ?s2)"
    using l b by simp
  show ?thesis
    using l 1 c n 2 3 ex_doc_run by blast
qed
subsection \<open>C9: package deduplication\<close>

text \<open>
  C9. The package map of the returned graph has exactly one entry for each distinct
  package name of the batch (the empty name for the files that declare none). For every
  descriptor, the File hydrated from it belongs to the package object registered under
  the name of its package: its \<^verbatim>\<open>pkg\<close> is that object and it is among the files of
  that object. So two files of one package share the same package object; and
  \<^verbatim>\<open>hydratePackage\<close> returns the registered object, unchanged, when the name is known.
\<close>

theorem package_deduplication:
  assumes "ProcessDescriptors req = Inr g"
  shows "dom (Packages g) = fd_package ` set (proto_file req) \<and>
    (\<forall>fd \<in> set (proto_file req). \<exists>p x fl y.
        Packages g (fd_package fd) = Some p \<and> p < length (objs g) \<and> objs g ! p = Pkg x \<and>
        fl \<in> set (pkg_files x) \<and> fl < length (objs g) \<and> objs g ! fl = File y \<and>
        file_desc y = fd \<and> file_pkg y = p) \<and>
    (\<forall>s f p. packages s (fd_package f) = Some p \<longrightarrow> hydratePackage f s = Inr (p, s))"
proof (intro conjI ballI allI impI)
  have inv: "pkg_inv (proto_file req) g"
    using assms by (rule ProcessDescriptors_invs)
  show "dom (Packages g) = fd_package ` set (proto_file req)"
    using inv unfolding pkg_inv_def Packages_def dom_def by blast
  show "hydratePackage f s = Inr (p, s)" if "packages s (fd_package f) = Some p" for s f p
    using that by (simp add: hydratePackage_def bind_def gets_def return_def Let_def)
  fix fd assume "fd \<in> set (proto_file req)"
  with inv obtain p fl b where
    *: "packages g (fd_package fd) = Some p" "fl \<in> set (pkgFiles (objs g ! p))"
       "fl < length (objs g)" "descOf (objs g ! fl) = FileD fd"
       "fileBits (objs g ! fl) = Some (p, b)"
    unfolding pkg_inv_def by blast
  from inv *(1) obtain pfd where p: "p < length (objs g)" "descOf (objs g ! p) = PkgD pfd"
    unfolding pkg_inv_def by blast
  from p(2) obtain x where x: "objs g ! p = Pkg x"
    by (auto simp: descOf_PkgD)
  from *(4) obtain y where y: "objs g ! fl = File y" "file_desc y = fd"
    by (auto simp: descOf_FileD)
  have "file_pkg y = p" using *(5) y by (simp add: fileBits_def)
  moreover have "fl \<in> set (pkg_files x)" using *(2) x by (simp add: pkgFiles_def)
  ultimately show "\<exists>p x fl y.
        Packages g (fd_package fd) = Some p \<and> p < length (objs g) \<and> objs g ! p = Pkg x \<and>
        fl \<in> set (pkg_files x) \<and> fl < length (objs g) \<and> objs g ! fl = File y \<and>
        file_desc y = fd \<and> file_pkg y = p"
    using * p x y unfolding Packages_def by blast
qed

theorem package_deduplication_witness:
  "ProcessDescriptors ex_ab_request = Inr ex_ab_graph
   \<and> fd_package ex_a_file = fd_package ex_b_file
   \<and> dom (Packages ex_ab_graph) = {''x''}
   \<and> Packages ex_ab_graph ''x'' = Some 0
   \<and> (\<exists>x. objs ex_ab_graph ! 0 = Pkg x \<and> pkg_files x = [1, 3])
   \<and> (\<exists>y. objs ex_ab_graph ! 1 = File y \<and> file_desc y = ex_b_file \<and> file_pkg y = 0)
   \<and> (\<exists>y. objs ex_ab_graph ! 3 = File y \<and> file_desc y = ex_a_file \<and> file_pkg y = 0)
   \<and> hydratePackage ex_a_file ex_ab_graph = Inr (0, ex_ab_graph)"
proof -
  have d: "fd_package ` set (proto_file ex_ab_request) = {''x''}"
    and e: "fd_package ex_a_file = fd_package ex_b_file"
    by (simp_all add: ex_ab_request_def ex_a_file_def ex_b_file_def)
  have k: "packages ex_ab_graph (fd_package ex_a_file) = Some 0"
    by (simp add: ex_ab_graph_def ex_a_file_def)
  have o: "Packages ex_ab_graph ''x'' = Some 0"
    "\<exists>x. objs ex_ab_graph ! 0 = Pkg x \<and> pkg_files x = [1, 3]"
    "\<exists>y. objs ex_ab_graph ! 1 = File y \<and> file_desc y = ex_b_file \<and> file_pkg y = 0"
    "\<exists>y. objs ex_ab_graph ! 3 = File y \<and> file_desc y = ex_a_file \<and> file_pkg y = 0"
    by (simp_all add: Packages_def ex_ab_graph_def)
  show ?thesis
    using package_deduplication[OF ex_ab_run] d e k o ex_ab_run
    by simp
qed

subsection \<open>C10: the fields of the map entries are classified first\<close>



end
